theory Spec2Isabelle
  imports Main "HOL-Library.Word"
begin

unbundle bit_operations_syntax

section \<open>Protocol engine (Esp8266.c, Esp8266.h)\<close>

text \<open>
  The target is the STM8 with the Cosmic compiler: \<open>unsigned char\<close> is 8 bits,
  \<open>int\<close> is 16 bits and \<open>long\<close> is 32 bits. Bytes and the status word are
  \<open>8 word\<close>. The counter \<open>count\<close> (a \<open>long\<close>) and \<open>packetSize\<close> (an
  \<open>int\<close>) are modelled as \<open>int\<close>: every array access that uses \<open>count\<close> is
  range-checked in the model before \<open>count\<close> is incremented, so \<open>count\<close> stays far
  below \<open>2 ^ 31\<close>, and a scanned length that does not fit 16 bits is a fault.

  An access that C leaves undefined (an index outside a declared array, a scanned number
  that \<open>int\<close> cannot represent) is a value of type \<open>fault\<close>; a run stops there.
\<close>

type_synonym u8 = "8 word"

datatype RxState =
    ESP8266_RESET
  | ESP8266_GET_READY
  | ESP8266_GET_OK
  | ESP8266_GET_RX_HEADER
  | ESP8266_GET_RX_PACKET_SIZE
  | ESP8266_GET_RX_PACKET
  | ESP8266_GET_TX

datatype fault =
    LiteralIndex int       \<comment> \<open>read of a literal message outside its array\<close>
  | LengthFieldIndex int   \<comment> \<open>write to \<open>packet\<close> outside the array, length field (lines 384, 389)\<close>
  | BodyIndex int          \<comment> \<open>write to \<open>packet\<close> outside the array, body (line 411)\<close>
  | ScanOverflow int       \<comment> \<open>\<open>sscanf\<close> read a number that a 16-bit \<open>int\<close> cannot hold\<close>
  | CopyOutOfBounds int    \<comment> \<open>\<open>memcpy\<close> of that many bytes leaves \<open>packet\<close> or the caller's buffer\<close>
  | FifoIndex nat          \<comment> \<open>access to \<open>fifo\<close> outside the array (Uart.c)\<close>

definition ESP8266_RX_BUFFER_SIZE :: nat where
  "ESP8266_RX_BUFFER_SIZE = 64"

definition ESP8266_OK_MESSAGE :: u8 where
  "ESP8266_OK_MESSAGE = 0x01"

definition ESP8266_READY_MESSAGE :: u8 where
  "ESP8266_READY_MESSAGE = 0x02"

definition ESP8266_TX_READY_MESSAGE :: u8 where
  "ESP8266_TX_READY_MESSAGE = 0x04"

definition ESP8266_RX_PACKET_MESSAGE :: u8 where
  "ESP8266_RX_PACKET_MESSAGE = 0x08"

text \<open>
  The literal messages as the C arrays hold them, the terminating NUL included, so that
  \<open>sizeof msg\<close> is the length of the list.
\<close>

definition OK_MSG :: "u8 list" where
  \<comment> \<open>\<open>"OK\r\n"\<close>\<close>
  "OK_MSG = [0x4F, 0x4B, 0x0D, 0x0A, 0x00]"

definition READY_MSG :: "u8 list" where
  \<comment> \<open>\<open>"ready\r\n"\<close>\<close>
  "READY_MSG = [0x72, 0x65, 0x61, 0x64, 0x79, 0x0D, 0x0A, 0x00]"

definition TX_READY_MSG :: "u8 list" where
  \<comment> \<open>\<open>"> "\<close>\<close>
  "TX_READY_MSG = [0x3E, 0x20, 0x00]"

definition RX_PACKET_MSG :: "u8 list" where
  \<comment> \<open>\<open>"+IPD,1,"\<close>\<close>
  "RX_PACKET_MSG = [0x2B, 0x49, 0x50, 0x44, 0x2C, 0x31, 0x2C, 0x00]"

definition sizeof :: "u8 list \<Rightarrow> int" where
  "sizeof msg = int (length msg)"

text \<open>\<open>msg[i]\<close> for a literal message: defined inside the array only.\<close>

definition msg_at :: "u8 list \<Rightarrow> int \<Rightarrow> u8 option" where
  "msg_at msg i = (if 0 \<le> i \<and> i < sizeof msg then Some (msg ! nat i) else None)"

text \<open>
  The engine's variables: the two statics of \<open>Esp8266_ProcessRxByte\<close> and the three
  file-level variables \<open>packet\<close>, \<open>packetSize\<close> and \<open>status\<close>.
\<close>

record esp =
  esp_state :: RxState
  count :: int
  packet :: "u8 list"
  packetSize :: int
  status :: u8

definition esp_init :: esp where
  "esp_init = \<lparr> esp_state = ESP8266_RESET, count = 0,
                 packet = replicate ESP8266_RX_BUFFER_SIZE 0, packetSize = 0, status = 0 \<rparr>"

subsection \<open>The C library's \<open>sscanf(s, "%d", &size)\<close>\<close>

text \<open>
  As ISO C defines it: white space is skipped, an optional sign is read, then the longest
  run of decimal digits. Without a digit nothing is stored and the return value is not 1
  (\<open>None\<close>); otherwise the number is stored and the return value is 1 (\<open>Some\<close>).
  The input is the C string held in the buffer, that is the bytes before the first NUL.
\<close>

definition c_str :: "u8 list \<Rightarrow> u8 list" where
  "c_str buf = takeWhile (\<lambda>c. c \<noteq> 0) buf"

definition isspace :: "u8 \<Rightarrow> bool" where
  "isspace c = (c = 0x20 \<or> (0x09 \<le> c \<and> c \<le> 0x0D))"

definition isdigit :: "u8 \<Rightarrow> bool" where
  "isdigit c = (0x30 \<le> c \<and> c \<le> 0x39)"

fun scan_digits :: "int \<Rightarrow> u8 list \<Rightarrow> int" where
  "scan_digits acc [] = acc"
| "scan_digits acc (c # cs) =
     (if isdigit c then scan_digits (acc * 10 + (uint c - 0x30)) cs else acc)"

definition scan_unsigned :: "u8 list \<Rightarrow> int option" where
  "scan_unsigned cs =
     (case cs of [] \<Rightarrow> None
      | c # _ \<Rightarrow> if isdigit c then Some (scan_digits 0 cs) else None)"

definition sscanf_d :: "u8 list \<Rightarrow> int option" where
  "sscanf_d str =
     (case dropWhile isspace str of
        [] \<Rightarrow> None
      | c # cs \<Rightarrow>
          if c = 0x2D then map_option uminus (scan_unsigned cs)
          else if c = 0x2B then scan_unsigned cs
          else scan_unsigned (c # cs))"

definition INT_MIN :: int where
  "INT_MIN = - 32768"

definition INT_MAX :: int where
  "INT_MAX = 32767"

subsection \<open>\<open>Esp8266_ProcessRxByte\<close>\<close>

text \<open>
  One branch per \<open>case\<close> of the source, in the source's order. The \<open>default\<close> branch of
  the outer switch has no counterpart: \<open>esp_state\<close> is only ever assigned one of the
  seven enumerators. In \<open>++count >= sizeof(msg) - 1\<close> the \<open>size_t\<close> operand (16 bits,
  unsigned) is converted to \<open>long\<close>, so the comparison is the one on integers.
\<close>

definition Esp8266_ProcessRxByte :: "u8 \<Rightarrow> esp \<Rightarrow> fault + esp" where
  "Esp8266_ProcessRxByte byte s =
    (case esp_state s of
       ESP8266_RESET \<Rightarrow>
         (let s0 = s\<lparr>count := 0\<rparr>;
              s1 = (if byte = OK_MSG ! 0 then s0\<lparr>esp_state := ESP8266_GET_OK\<rparr>
                    else if byte = READY_MSG ! 0 then s0\<lparr>esp_state := ESP8266_GET_READY\<rparr>
                    else if byte = RX_PACKET_MSG ! 0 then s0\<lparr>esp_state := ESP8266_GET_RX_HEADER\<rparr>
                    else if byte = TX_READY_MSG ! 0 then s0\<lparr>esp_state := ESP8266_GET_TX\<rparr>
                    else s0)
          in Inr (s1\<lparr>count := count s1 + 1\<rparr>))
     | ESP8266_GET_READY \<Rightarrow>
         (case msg_at READY_MSG (count s) of
            None \<Rightarrow> Inl (LiteralIndex (count s))
          | Some c \<Rightarrow>
              if byte = c then
                (let s1 = s\<lparr>count := count s + 1\<rparr>
                 in if count s1 \<ge> sizeof READY_MSG - 1
                    then Inr (s1\<lparr>esp_state := ESP8266_RESET,
                                 status := status s1 OR ESP8266_READY_MESSAGE\<rparr>)
                    else Inr s1)
              else Inr (s\<lparr>esp_state := ESP8266_RESET\<rparr>))
     | ESP8266_GET_OK \<Rightarrow>
         (case msg_at OK_MSG (count s) of
            None \<Rightarrow> Inl (LiteralIndex (count s))
          | Some c \<Rightarrow>
              if byte = c then
                (let s1 = s\<lparr>count := count s + 1\<rparr>
                 in if count s1 \<ge> sizeof OK_MSG - 1
                    then Inr (s1\<lparr>esp_state := ESP8266_RESET,
                                 status := status s1 OR ESP8266_OK_MESSAGE\<rparr>)
                    else Inr s1)
              else Inr (s\<lparr>esp_state := ESP8266_RESET\<rparr>))
     | ESP8266_GET_RX_HEADER \<Rightarrow>
         (case msg_at RX_PACKET_MSG (count s) of
            None \<Rightarrow> Inl (LiteralIndex (count s))
          | Some c \<Rightarrow>
              if byte = c then
                (let s1 = s\<lparr>count := count s + 1\<rparr>
                 in if count s1 \<ge> sizeof RX_PACKET_MSG - 1
                    then Inr (s1\<lparr>esp_state := ESP8266_GET_RX_PACKET_SIZE, count := 0\<rparr>)
                    else Inr s1)
              else Inr (s\<lparr>esp_state := ESP8266_RESET\<rparr>))
     | ESP8266_GET_RX_PACKET_SIZE \<Rightarrow>
         (if count s < 0 \<or> int (length (packet s)) \<le> count s
          then Inl (LengthFieldIndex (count s))
          else if byte \<noteq> 0x3A then
            Inr (s\<lparr>packet := (packet s)[nat (count s) := byte], count := count s + 1\<rparr>)
          else
            (let s1 = s\<lparr>packet := (packet s)[nat (count s) := 0]\<rparr>
             in case sscanf_d (c_str (packet s1)) of
                  Some sz \<Rightarrow>
                    if sz < INT_MIN \<or> INT_MAX < sz then Inl (ScanOverflow sz)
                    else Inr (s1\<lparr>packetSize := sz,
                                  esp_state := ESP8266_GET_RX_PACKET, count := 0\<rparr>)
                | None \<Rightarrow> Inr (s1\<lparr>esp_state := ESP8266_RESET\<rparr>)))
     | ESP8266_GET_RX_PACKET \<Rightarrow>
         (if count s < 0 \<or> int (length (packet s)) \<le> count s
          then Inl (BodyIndex (count s))
          else
            (let s1 = s\<lparr>packet := (packet s)[nat (count s) := byte], count := count s + 1\<rparr>
             in if count s1 \<ge> packetSize s1
                then Inr (s1\<lparr>esp_state := ESP8266_RESET,
                             status := status s1 OR ESP8266_RX_PACKET_MESSAGE\<rparr>)
                else Inr s1))
     | ESP8266_GET_TX \<Rightarrow>
         (case msg_at TX_READY_MSG (count s) of
            None \<Rightarrow> Inl (LiteralIndex (count s))
          | Some c \<Rightarrow>
              if byte = c then
                (let s1 = s\<lparr>count := count s + 1\<rparr>
                 in if count s1 \<ge> sizeof TX_READY_MSG - 1
                    then Inr (s1\<lparr>esp_state := ESP8266_RESET,
                                 status := status s1 OR ESP8266_TX_READY_MESSAGE\<rparr>)
                    else Inr s1)
              else Inr (s\<lparr>esp_state := ESP8266_RESET\<rparr>)))"

text \<open>
  The receive interrupt calls \<open>Esp8266_ProcessRxByte\<close> once per byte (\<open>Uart_ReceiveISR\<close>
  with the callback that \<open>Esp8266_Initialize\<close> registers); \<open>feed\<close> is that, for the
  bytes of a stream in order.
\<close>

fun feed :: "esp \<Rightarrow> u8 list \<Rightarrow> fault + esp" where
  "feed s [] = Inr s"
| "feed s (b # bs) =
     (case Esp8266_ProcessRxByte b s of Inl f \<Rightarrow> Inl f | Inr s' \<Rightarrow> feed s' bs)"


subsection \<open>\<open>Esp8266_ReceiveMsg\<close>\<close>

text \<open>
  \<open>memcpy(dst, src, n)\<close> with \<open>n\<close> an \<open>int\<close>: a negative \<open>n\<close> becomes a huge
  \<open>size_t\<close>, so the copy is defined only for \<open>0 \<le> n\<close> within both arrays. The
  caller's buffer \<open>p\<close> is a list whose length is the size of the caller's array; the
  function returns the \<open>int\<close> result, the caller's buffer and the engine state.
\<close>

definition memcpy :: "u8 list \<Rightarrow> u8 list \<Rightarrow> int \<Rightarrow> fault + u8 list" where
  "memcpy dst src n =
     (if n < 0 \<or> int (length src) < n \<or> int (length dst) < n then Inl (CopyOutOfBounds n)
      else Inr (take (nat n) src @ drop (nat n) dst))"

definition Esp8266_ReceiveMsg :: "u8 list \<Rightarrow> esp \<Rightarrow> fault + (int \<times> u8 list \<times> esp)" where
  "Esp8266_ReceiveMsg p s =
     (if status s AND ESP8266_RX_PACKET_MESSAGE \<noteq> 0 then
        (let s1 = s\<lparr>status := status s AND NOT ESP8266_RX_PACKET_MESSAGE\<rparr>
         in case memcpy p (packet s1) (packetSize s1) of
              Inl f \<Rightarrow> Inl f
            | Inr p' \<Rightarrow> Inr (packetSize s1, p', s1))
      else Inr (0, p, s))"

subsection \<open>\<open>WaitForResponse\<close>\<close>

text \<open>
  The loop \<open>while(1)\<close> polls \<open>status\<close>, which only the receive interrupt changes. The
  environment of a call is the list \<open>env\<close> of byte batches: the head is what the interrupt
  handler processes between one poll and the next. The test and the clearing assignment of
  a successful poll are taken as one step (no interrupt between them), and every poll
  reads \<open>status\<close> afresh. When \<open>env\<close> is exhausted no further byte arrives, \<open>status\<close>
  stays as it is and a failing poll fails forever: the call does not return, which is the
  value \<open>None\<close>. A returning call gives the return value, the engine state and the
  batches not yet consumed. The statement \<open>return 0\<close> after the loop is unreachable and
  has no counterpart.
\<close>

type_synonym u32 = "32 word"

definition TIMEOUT_LONG :: u32 where
  "TIMEOUT_LONG = 0xFFFFFFFF"

definition TIMEOUT_SHORT :: u32 where
  "TIMEOUT_SHORT = 0x00FFFFFF"

fun WaitForResponse ::
  "u8 \<Rightarrow> u32 \<Rightarrow> u8 list list \<Rightarrow> esp \<Rightarrow> (fault + (int \<times> esp \<times> u8 list list)) option" where
  "WaitForResponse msgType timeout [] s =
     (if status s AND msgType = msgType
      then Some (Inr (1, s\<lparr>status := status s AND NOT msgType\<rparr>, []))
      else None)"
| "WaitForResponse msgType timeout (bs # env) s =
     (if status s AND msgType = msgType
      then Some (Inr (1, s\<lparr>status := status s AND NOT msgType\<rparr>, bs # env))
      else case feed s bs of
             Inl f \<Rightarrow> Some (Inl f)
           | Inr s' \<Rightarrow> WaitForResponse msgType timeout env s')"

section \<open>Byte channel FIFO (Uart.c, Uart.h)\<close>

text \<open>
  The indices are \<open>unsigned long\<close> (32 bits): \<open>nat\<close> with the wrap-around of
  \<open>index + 1\<close> written out.
\<close>

definition UART_BUFFER_SIZE :: nat where
  "UART_BUFFER_SIZE = 64"

record uart =
  fifo :: "u8 list"
  enqueueIndex :: nat
  dequeueIndex :: nat

definition Uart_FifoGetNextIndex :: "nat \<Rightarrow> nat" where
  "Uart_FifoGetNextIndex index =
     (let next_index = (index + 1) mod 2 ^ 32
      in if next_index \<ge> UART_BUFFER_SIZE then 0 else next_index)"

definition Uart_FifoIsEmpty :: "uart \<Rightarrow> bool" where
  "Uart_FifoIsEmpty u = (dequeueIndex u = enqueueIndex u)"

definition Uart_FifoIsFull :: "uart \<Rightarrow> bool" where
  "Uart_FifoIsFull u = (Uart_FifoGetNextIndex (enqueueIndex u) = dequeueIndex u)"

definition Uart_FifoEnqueue :: "u8 \<Rightarrow> uart \<Rightarrow> fault + (int \<times> uart)" where
  "Uart_FifoEnqueue data u =
     (if \<not> Uart_FifoIsFull u then
        (if enqueueIndex u < length (fifo u)
         then Inr (1, u\<lparr>fifo := (fifo u)[enqueueIndex u := data],
                         enqueueIndex := Uart_FifoGetNextIndex (enqueueIndex u)\<rparr>)
         else Inl (FifoIndex (enqueueIndex u)))
      else Inr (0, u))"

definition Uart_FifoDequeue :: "uart \<Rightarrow> fault + (u8 \<times> uart)" where
  "Uart_FifoDequeue u =
     (if \<not> Uart_FifoIsEmpty u then
        (if dequeueIndex u < length (fifo u)
         then Inr (fifo u ! dequeueIndex u,
                   u\<lparr>dequeueIndex := Uart_FifoGetNextIndex (dequeueIndex u)\<rparr>)
         else Inl (FifoIndex (dequeueIndex u)))
      else Inr (0, u))"

definition Uart_FifoClear :: "uart \<Rightarrow> uart" where
  "Uart_FifoClear u =
     \<lparr> fifo = replicate UART_BUFFER_SIZE 0, enqueueIndex = 0, dequeueIndex = 0 \<rparr>"

text \<open>A sequence of calls: one enqueue per byte, and \<open>n\<close> dequeues, with the results in order.\<close>

fun enqueue_all :: "u8 list \<Rightarrow> uart \<Rightarrow> fault + (int list \<times> uart)" where
  "enqueue_all [] u = Inr ([], u)"
| "enqueue_all (x # xs) u =
     (case Uart_FifoEnqueue x u of
        Inl f \<Rightarrow> Inl f
      | Inr (r, u') \<Rightarrow>
          (case enqueue_all xs u' of Inl f \<Rightarrow> Inl f | Inr (rs, u'') \<Rightarrow> Inr (r # rs, u'')))"

fun dequeue_n :: "nat \<Rightarrow> uart \<Rightarrow> fault + (u8 list \<times> uart)" where
  "dequeue_n 0 u = Inr ([], u)"
| "dequeue_n (Suc n) u =
     (case Uart_FifoDequeue u of
        Inl f \<Rightarrow> Inl f
      | Inr (x, u') \<Rightarrow>
          (case dequeue_n n u' of Inl f \<Rightarrow> Inl f | Inr (xs, u'') \<Rightarrow> Inr (x # xs, u'')))"

section \<open>Drive controller and command dispatch (DriveController.c, main.c)\<close>

text \<open>
  The enumerators of \<open>Directions\<close> are compared with \<open>unsigned char\<close> values, so they
  are bytes here. What the motor functions do is the list of the peripheral calls they
  make, in order. \<open>GPIOA\<close>, \<open>GPIOG\<close> and the pin masks come from the vendor header and
  stay symbolic.
\<close>

definition STOP :: u8 where
  "STOP = 0"

definition FORWARD :: u8 where
  "FORWARD = 1"

definition BACKWARD :: u8 where
  "BACKWARD = 2"

definition LEFT :: u8 where
  "LEFT = 3"

definition SHARP_LEFT :: u8 where
  "SHARP_LEFT = 4"

definition RIGHT :: u8 where
  "RIGHT = 5"

definition SHARP_RIGHT :: u8 where
  "SHARP_RIGHT = 6"

datatype port = GPIOA | GPIOG

datatype pin = GPIO_PIN_0 | GPIO_PIN_1 | GPIO_PIN_3 | GPIO_PIN_4

datatype hw =
    GPIO_WriteLow port pin
  | GPIO_WriteHigh port pin
  | TIM2_SetCompare1 nat
  | TIM2_SetCompare2 nat

definition PWM_TIMER_MAX_COUNT :: nat where
  "PWM_TIMER_MAX_COUNT = 1000"

definition Motor :: "u8 \<Rightarrow> u8 \<Rightarrow> hw list" where
  "Motor motor direction =
     (case (if motor = LEFT then Some (GPIOA, GPIO_PIN_3, GPIO_PIN_4)
            else if motor = RIGHT then Some (GPIOG, GPIO_PIN_0, GPIO_PIN_1)
            else None) of
        None \<Rightarrow> []
      | Some (port, pin1, pin2) \<Rightarrow>
          if direction = STOP then [GPIO_WriteLow port pin1, GPIO_WriteLow port pin2]
          else if direction = FORWARD then [GPIO_WriteHigh port pin1, GPIO_WriteLow port pin2]
          else if direction = BACKWARD then [GPIO_WriteLow port pin1, GPIO_WriteHigh port pin2]
          else [])"

text \<open>
  \<open>SCALE_FACTOR\<close> is the integer quotient \<open>PWM_TIMER_MAX_COUNT / 100\<close> stored in a
  \<open>float\<close>. The compare value is \<open>SCALE_FACTOR * percentSpeed + 0.5\<close> truncated to an
  integer; every value involved is a multiple of one half below 1001 and exact in
  \<open>float\<close>, so the truncation is the integer division below.
\<close>

definition DriveCtrl_SetSpeed :: "u8 \<Rightarrow> hw list" where
  "DriveCtrl_SetSpeed percentSpeed =
     (let SCALE_FACTOR = PWM_TIMER_MAX_COUNT div 100;
          percentSpeed = (if percentSpeed > 100 then 100 else percentSpeed);
          compare = (2 * (SCALE_FACTOR * unat percentSpeed) + 1) div 2
      in [TIM2_SetCompare1 compare, TIM2_SetCompare2 compare])"

definition DriveCtrl_Stop :: "hw list" where
  "DriveCtrl_Stop = Motor LEFT STOP @ Motor RIGHT STOP"

definition DriveCtrl_Forward :: "hw list" where
  "DriveCtrl_Forward = Motor LEFT FORWARD @ Motor RIGHT FORWARD"

definition DriveCtrl_Backward :: "hw list" where
  "DriveCtrl_Backward = Motor LEFT BACKWARD @ Motor RIGHT BACKWARD"

definition DriveCtrl_Turn :: "u8 \<Rightarrow> hw list" where
  "DriveCtrl_Turn direction =
     (if direction = LEFT then Motor LEFT STOP @ Motor RIGHT FORWARD
      else if direction = SHARP_LEFT then Motor LEFT BACKWARD @ Motor RIGHT FORWARD
      else if direction = RIGHT then Motor LEFT FORWARD @ Motor RIGHT STOP
      else if direction = SHARP_RIGHT then Motor LEFT FORWARD @ Motor RIGHT BACKWARD
      else [])"

text \<open>
  The \<open>switch(packet[0])\<close> of the main loop, entered when \<open>Esp8266_ReceiveMsg\<close> returned
  a nonzero length. \<open>pkt\<close> is the 64-byte local array of \<open>main\<close>, so \<open>pkt ! 0\<close> and
  \<open>pkt ! 1\<close> are inside it.
\<close>

definition main_dispatch :: "u8 list \<Rightarrow> hw list" where
  "main_dispatch pkt =
     (if pkt ! 0 = STOP then DriveCtrl_Stop @ DriveCtrl_SetSpeed 0
      else if pkt ! 0 = FORWARD then DriveCtrl_Forward @ DriveCtrl_SetSpeed (pkt ! 1)
      else if pkt ! 0 = BACKWARD then DriveCtrl_Backward @ DriveCtrl_SetSpeed (pkt ! 1)
      else if pkt ! 0 = LEFT then DriveCtrl_Turn LEFT @ DriveCtrl_SetSpeed (pkt ! 1)
      else if pkt ! 0 = RIGHT then DriveCtrl_Turn RIGHT @ DriveCtrl_SetSpeed (pkt ! 1)
      else [])"

section \<open>Notions used to state the properties\<close>

text \<open>The bytes a literal message puts on the wire: the array without its NUL.\<close>

definition text_of :: "u8 list \<Rightarrow> u8 list" where
  "text_of msg = butlast msg"

text \<open>The ASCII decimal digits of a number, most significant first, no leading zero.\<close>

fun decimal :: "nat \<Rightarrow> u8 list" where
  "decimal n = (if n < 10 then [0x30 + of_nat n]
                else decimal (n div 10) @ [0x30 + of_nat (n mod 10)])"

declare decimal.simps [simp del]

text \<open>
  The packet lengths a stream declares, in order: the number scanned each time a length
  field is closed by \<open>:\<close> and scans as a number, also when a 16-bit \<open>int\<close> cannot hold it.
\<close>

fun declared :: "esp \<Rightarrow> u8 list \<Rightarrow> int list" where
  "declared s [] = []"
| "declared s (b # bs) =
     (case Esp8266_ProcessRxByte b s of
        Inl (ScanOverflow n) \<Rightarrow> [n]
      | Inl _ \<Rightarrow> []
      | Inr s' \<Rightarrow>
          if esp_state s = ESP8266_GET_RX_PACKET_SIZE \<and> esp_state s' = ESP8266_GET_RX_PACKET
          then packetSize s' # declared s' bs
          else declared s' bs)"

text \<open>
  For each byte the engine receives while it reads a length field (the closing colon
  included), the position of that byte within its length field, counted from 1. The
  argument \<open>n\<close> is the number of bytes of the current field received before; the
  positions are told from the parsing state alone, not from \<open>count\<close>.
\<close>

fun field_positions :: "nat \<Rightarrow> esp \<Rightarrow> u8 list \<Rightarrow> nat list" where
  "field_positions n s [] = []"
| "field_positions n s (b # bs) =
     (if esp_state s = ESP8266_GET_RX_PACKET_SIZE
      then Suc n # (case Esp8266_ProcessRxByte b s of
                      Inl _ \<Rightarrow> []
                    | Inr s' \<Rightarrow> field_positions (Suc n) s' bs)
      else (case Esp8266_ProcessRxByte b s of
              Inl _ \<Rightarrow> []
            | Inr s' \<Rightarrow> field_positions 0 s' bs))"

text \<open>The index of the write outside \<open>packet\<close> that ended a run, if one did.\<close>

definition write_fault :: "fault + esp \<Rightarrow> int option" where
  "write_fault r =
     (case r of
        Inl (LengthFieldIndex i) \<Rightarrow> Some i
      | Inl (BodyIndex i) \<Rightarrow> Some i
      | _ \<Rightarrow> None)"

text \<open>What holds of the engine's variables in every state a run from \<open>ESP8266_RESET\<close> reaches
  while the declared lengths stay within the buffer.\<close>

definition engine_inv :: "esp \<Rightarrow> bool" where
  "engine_inv s =
     (length (packet s) = ESP8266_RX_BUFFER_SIZE \<and>
      (case esp_state s of
         ESP8266_RESET \<Rightarrow> True
       | ESP8266_GET_READY \<Rightarrow> 1 \<le> count s \<and> count s < sizeof READY_MSG - 1
       | ESP8266_GET_OK \<Rightarrow> 1 \<le> count s \<and> count s < sizeof OK_MSG - 1
       | ESP8266_GET_RX_HEADER \<Rightarrow> 1 \<le> count s \<and> count s < sizeof RX_PACKET_MSG - 1
       | ESP8266_GET_RX_PACKET_SIZE \<Rightarrow> 0 \<le> count s \<and> count s \<le> 64
       | ESP8266_GET_RX_PACKET \<Rightarrow> 0 \<le> count s \<and> count s < 64 \<and> packetSize s \<le> 64
       | ESP8266_GET_TX \<Rightarrow> 1 \<le> count s \<and> count s < sizeof TX_READY_MSG - 1))"

text \<open>The FIFO as the queue it represents: the bytes from the read cursor up to the write
  cursor, around the end of the array.\<close>

definition fifo_wf :: "uart \<Rightarrow> bool" where
  "fifo_wf u = (length (fifo u) = UART_BUFFER_SIZE \<and> enqueueIndex u < UART_BUFFER_SIZE
      \<and> dequeueIndex u < UART_BUFFER_SIZE)"

definition fifo_count :: "uart \<Rightarrow> nat" where
  "fifo_count u = (enqueueIndex u + UART_BUFFER_SIZE - dequeueIndex u) mod UART_BUFFER_SIZE"

definition fifo_contents :: "uart \<Rightarrow> u8 list" where
  "fifo_contents u =
     map (\<lambda>k. fifo u ! ((dequeueIndex u + k) mod UART_BUFFER_SIZE)) [0..<fifo_count u]"

text \<open>Streams and states of the scenarios below.\<close>

definition truncated :: "u8 list" where
  \<comment> \<open>\<open>+IPD,1,2:\<close> and the single body byte 0\<close>
  "truncated = text_of RX_PACKET_MSG @ [0x32, 0x3A, 0x00]"

definition forward75 :: "u8 list" where
  \<comment> \<open>\<open>+IPD,1,2:\<close> and the body 1, 75\<close>
  "forward75 = text_of RX_PACKET_MSG @ decimal 2 @ [0x3A] @ [1, 75]"

definition received75 :: esp where
  \<comment> \<open>the engine after \<open>forward75\<close>, from the initial state\<close>
  "received75 = \<lparr> esp_state = ESP8266_RESET, count = 2,
                   packet = 1 # 75 # replicate 62 0, packetSize = 2, status = 0x08 \<rparr>"

definition ok_batches :: "u8 list list" where
  \<comment> \<open>\<open>OK\r\n\<close> arriving in three batches between polls, then a byte \<open>>\<close>\<close>
  "ok_batches = [[0x4F], [0x4B, 0x0D], [0x0A], [0x3E]]"

definition sharp_left50 :: "u8 list" where
  \<comment> \<open>\<open>+IPD,1,2:\<close> and the body 4, 50\<close>
  "sharp_left50 = text_of RX_PACKET_MSG @ decimal 2 @ [0x3A] @ [SHARP_LEFT, 50]"

definition sharp_left_received :: esp where
  \<comment> \<open>the engine after \<open>sharp_left50\<close>, from the initial state\<close>
  "sharp_left_received = \<lparr> esp_state = ESP8266_RESET, count = 2,
                            packet = 4 # 50 # replicate 62 0, packetSize = 2, status = 0x08 \<rparr>"

definition negative_length :: "u8 list" where
  \<comment> \<open>\<open>+IPD,1,-5:A\<close>\<close>
  "negative_length = text_of RX_PACKET_MSG @ [0x2D, 0x35, 0x3A, 0x41]"

definition negative_received :: esp where
  \<comment> \<open>the engine after \<open>negative_length\<close>, from the initial state\<close>
  "negative_received = \<lparr> esp_state = ESP8266_RESET, count = 1,
                          packet = 0x41 # 0x35 # replicate 62 0, packetSize = - 5,
                          status = 0x08 \<rparr>"

definition long_length_field :: "u8 list" where
  \<comment> \<open>\<open>+IPD,1,1:\<close>, one body byte, then \<open>+IPD,1,\<close>, 64 digits \<open>0\<close> and \<open>:\<close>\<close>
  "long_length_field =
     text_of RX_PACKET_MSG @ [0x31, 0x3A, 0x07] @ text_of RX_PACKET_MSG @ replicate 64 0x30 @ [0x3A]"

definition ring_start :: uart where
  \<comment> \<open>an empty FIFO whose cursors stand at 62, so that the third byte wraps around\<close>
  "ring_start = \<lparr> fifo = replicate 64 0, enqueueIndex = 62, dequeueIndex = 62 \<rparr>"

definition ring_three :: uart where
  \<comment> \<open>\<open>ring_start\<close> after the bytes \<open>O\<close>, \<open>K\<close>, \<open>\r\<close> have been enqueued\<close>
  "ring_three = \<lparr> fifo = (replicate 64 0)[62 := 0x4F, 63 := 0x4B, 0 := 0x0D],
                   enqueueIndex = 1, dequeueIndex = 62 \<rparr>"

section \<open>Auxiliary facts\<close>

lemmas step_defs = Esp8266_ProcessRxByte_def msg_at_def sizeof_def
  OK_MSG_def READY_MSG_def TX_READY_MSG_def RX_PACKET_MSG_def
  ESP8266_OK_MESSAGE_def ESP8266_READY_MESSAGE_def ESP8266_TX_READY_MESSAGE_def
  ESP8266_RX_PACKET_MESSAGE_def

subsection \<open>Running the engine over a stream\<close>

lemma feed_append:
  "feed s (xs @ ys) = (case feed s xs of Inl f \<Rightarrow> Inl f | Inr s' \<Rightarrow> feed s' ys)"
  by (induction xs arbitrary: s) (auto split: sum.splits)

lemma feed_seq: "feed s xs = Inr s' \<Longrightarrow> feed s (xs @ ys) = feed s' ys"
  by (simp add: feed_append)

subsection \<open>Decimal digits and \<open>sscanf\<close>\<close>

lemma digit_char:
  assumes "d < 10"
  shows "isdigit (0x30 + of_nat d)" and "uint (0x30 + of_nat d :: u8) - 0x30 = int d"
    and "(0x30 + of_nat d :: u8) \<noteq> 0" and "(0x30 + of_nat d :: u8) \<noteq> 0x3A"
proof -
  from assms have "d \<in> {0, 1, 2, 3, 4, 5, 6, 7, 8, 9}" by auto
  then show "isdigit (0x30 + of_nat d)" and "uint (0x30 + of_nat d :: u8) - 0x30 = int d"
    and "(0x30 + of_nat d :: u8) \<noteq> 0" and "(0x30 + of_nat d :: u8) \<noteq> 0x3A"
    by (auto simp: isdigit_def)
qed

lemma decimal_chars:
  "c \<in> set (decimal n) \<Longrightarrow> isdigit c \<and> c \<noteq> 0 \<and> c \<noteq> 0x3A"
proof (induction n rule: decimal.induct)
  case (1 n)
  then show ?case
    by (subst (asm) (2) decimal.simps) (auto simp: digit_char split: if_splits)
qed

lemma decimal_nonempty: "decimal n \<noteq> []"
  by (subst decimal.simps) simp

lemma decimal_length: "n < 100 \<Longrightarrow> length (decimal n) \<le> 2"
  by (subst decimal.simps, subst decimal.simps) auto

lemma scan_digits_append:
  "\<forall>c \<in> set ds. isdigit c \<Longrightarrow>
   scan_digits acc (ds @ rest) = scan_digits (scan_digits acc ds) rest"
  by (induction ds arbitrary: acc) auto

lemma scan_digits_decimal:
  "scan_digits acc (decimal n) = acc * 10 ^ length (decimal n) + int n"
proof (induction n arbitrary: acc rule: decimal.induct)
  case (1 n)
  show ?case
  proof (cases "n < 10")
    case True
    then show ?thesis by (subst (1 2) decimal.simps) (simp add: digit_char)
  next
    case False
    have d: "\<forall>c \<in> set (decimal (n div 10)). isdigit c" using decimal_chars by blast
    have m: "n mod 10 < 10" by simp
    have e: "int n = int (n div 10) * 10 + int (n mod 10)"
      by (simp add: zdiv_int zmod_int)
    from False have "scan_digits acc (decimal n)
        = (acc * 10 ^ length (decimal (n div 10)) + int (n div 10)) * 10 + int (n mod 10)"
      by (subst decimal.simps) (simp add: scan_digits_append [OF d] 1 digit_char [OF m])
    also have "\<dots> = acc * 10 ^ Suc (length (decimal (n div 10))) + int n"
      using e by (simp add: algebra_simps)
    also from False have "Suc (length (decimal (n div 10))) = length (decimal n)"
      by (subst (2) decimal.simps) simp
    finally show ?thesis .
  qed
qed

lemma sscanf_decimal: "sscanf_d (decimal n) = Some (int n)"
proof -
  obtain c cs where e: "decimal n = c # cs"
    using decimal_nonempty by (cases "decimal n") auto
  then have "c \<in> set (decimal n)" by simp
  then have c: "isdigit c" using decimal_chars by blast
  then have ns: "\<not> isspace c" "c \<noteq> 0x2D" "c \<noteq> 0x2B"
    by (auto simp: isdigit_def isspace_def word_le_nat_alt)
  have "scan_digits 0 (decimal n) = int n" by (simp add: scan_digits_decimal)
  with e c ns show ?thesis by (simp add: sscanf_d_def scan_unsigned_def)
qed

lemma c_str_terminated:
  "\<forall>c \<in> set ds. c \<noteq> 0 \<Longrightarrow> c_str (ds @ 0 # rest) = ds"
  by (simp add: c_str_def takeWhile_append2)

subsection \<open>The phases of an inbound packet\<close>

lemma feed_header:
  "esp_state s = ESP8266_RESET \<Longrightarrow>
   feed s (text_of RX_PACKET_MSG) =
     Inr (s\<lparr>esp_state := ESP8266_GET_RX_PACKET_SIZE, count := 0\<rparr>)"
  by (simp add: text_of_def step_defs)

lemma feed_length_field:
  "esp_state s = ESP8266_GET_RX_PACKET_SIZE \<Longrightarrow> 0 \<le> count s \<Longrightarrow>
   nat (count s) + length ds \<le> length (packet s) \<Longrightarrow> \<forall>c \<in> set ds. c \<noteq> 0x3A \<Longrightarrow>
   feed s ds = Inr (s\<lparr>packet := take (nat (count s)) (packet s) @ ds
                                   @ drop (nat (count s) + length ds) (packet s),
                        count := count s + int (length ds)\<rparr>)"
proof (induction ds arbitrary: s)
  case Nil
  then show ?case by simp
next
  case (Cons d ds)
  let ?s1 = "s\<lparr>packet := (packet s)[nat (count s) := d], count := count s + 1\<rparr>"
  from Cons.prems have st: "Esp8266_ProcessRxByte d s = Inr ?s1"
    by (simp add: Esp8266_ProcessRxByte_def)
  from Cons.prems have c: "nat (count s) < length (packet s)" by simp
  have "feed ?s1 ds = Inr (?s1\<lparr>packet := take (nat (count ?s1)) (packet ?s1) @ ds
                                   @ drop (nat (count ?s1) + length ds) (packet ?s1),
                        count := count ?s1 + int (length ds)\<rparr>)"
    using Cons.prems by (intro Cons.IH) auto
  moreover from Cons.prems have "nat (count s + 1) = Suc (nat (count s))" by simp
  ultimately show ?case using st c
    by (simp add: take_Suc_conv_app_nth)
qed

lemma feed_colon:
  assumes "esp_state s = ESP8266_GET_RX_PACKET_SIZE" "packet s = ds @ rest" "rest \<noteq> []"
    "count s = int (length ds)" "\<forall>c \<in> set ds. c \<noteq> 0" "sscanf_d ds = Some n"
    "INT_MIN \<le> n" "n \<le> INT_MAX"
  shows "feed s [0x3A] = Inr (s\<lparr>packet := ds @ 0 # tl rest, packetSize := n,
                                  esp_state := ESP8266_GET_RX_PACKET, count := 0\<rparr>)"
proof -
  from assms obtain r rs where r: "rest = r # rs" by (cases rest) auto
  with assms have u: "(packet s)[nat (count s) := 0] = ds @ 0 # rs"
    by (simp add: list_update_append)
  from assms have "c_str (ds @ 0 # rs) = ds" by (intro c_str_terminated)
  with assms u r show ?thesis
    by (simp add: Esp8266_ProcessRxByte_def)
qed

lemma feed_body:
  "esp_state s = ESP8266_GET_RX_PACKET \<Longrightarrow> 0 \<le> count s \<Longrightarrow> bs \<noteq> [] \<Longrightarrow>
   count s + int (length bs) = packetSize s \<Longrightarrow> packetSize s \<le> int (length (packet s)) \<Longrightarrow>
   feed s bs = Inr (s\<lparr>packet := take (nat (count s)) (packet s) @ bs
                                   @ drop (nat (packetSize s)) (packet s),
                        count := packetSize s, esp_state := ESP8266_RESET,
                        status := status s OR ESP8266_RX_PACKET_MESSAGE\<rparr>)"
proof (induction bs arbitrary: s)
  case Nil
  then show ?case by simp
next
  case (Cons b bs)
  let ?s1 = "s\<lparr>packet := (packet s)[nat (count s) := b], count := count s + 1\<rparr>"
  from Cons.prems have c: "nat (count s) < length (packet s)" by simp
  from Cons.prems have n: "nat (count s + 1) = Suc (nat (count s))" by simp
  show ?case
  proof (cases "bs = []")
    case True
    with Cons.prems have "nat (packetSize s) = Suc (nat (count s))" by auto
    with True Cons.prems c show ?thesis
      by (simp add: Esp8266_ProcessRxByte_def upd_conv_take_nth_drop)
  next
    case False
    with Cons.prems have st: "Esp8266_ProcessRxByte b s = Inr ?s1"
      by (cases bs) (simp_all add: Esp8266_ProcessRxByte_def Let_def)
    have "feed ?s1 bs = Inr (?s1\<lparr>packet := take (nat (count ?s1)) (packet ?s1) @ bs
                                   @ drop (nat (packetSize ?s1)) (packet ?s1),
                        count := packetSize ?s1, esp_state := ESP8266_RESET,
                        status := status ?s1 OR ESP8266_RX_PACKET_MESSAGE\<rparr>)"
      using Cons.prems False by (intro Cons.IH) auto
    moreover from Cons.prems have "nat (count s) < nat (packetSize s)" by auto
    ultimately show ?thesis using st c n
      by (simp add: take_Suc_conv_app_nth)
  qed
qed

section \<open>Inbound packets of every declared length\<close>

text \<open>
  Claim C1, as amended. For every declared length \<open>L\<close> from 1 to 64, from any state in
  which the machine is idle, the header \<open>+IPD,1,\<close>, the decimal digits of \<open>L\<close>, the
  colon and exactly \<open>L\<close> arbitrary body bytes, fed one byte at a time, set the
  packet-available bit, leave the recorded length equal to \<open>L\<close> and the first \<open>L\<close> bytes of
  the packet buffer equal to the body, and return the machine to idle.
\<close>

theorem C1_packet_received:
  assumes st: "esp_state s = ESP8266_RESET"
    and len: "length (packet s) = ESP8266_RX_BUFFER_SIZE"
    and L: "1 \<le> L" "L \<le> ESP8266_RX_BUFFER_SIZE" and body: "length body = L"
  shows "\<exists>s'. feed s (text_of RX_PACKET_MSG @ decimal L @ [0x3A] @ body) = Inr s'
            \<and> status s' = status s OR ESP8266_RX_PACKET_MESSAGE
            \<and> packetSize s' = int L
            \<and> take L (packet s') = body
            \<and> esp_state s' = ESP8266_RESET"
proof -
  let ?ds = "decimal L"
  let ?s1 = "s\<lparr>esp_state := ESP8266_GET_RX_PACKET_SIZE, count := 0\<rparr>"
  let ?s2 = "?s1\<lparr>packet := ?ds @ drop (length ?ds) (packet s), count := int (length ?ds)\<rparr>"
  let ?s3 = "?s2\<lparr>packet := ?ds @ 0 # tl (drop (length ?ds) (packet s)), packetSize := int L,
                    esp_state := ESP8266_GET_RX_PACKET, count := 0\<rparr>"
  from L have dl: "length ?ds \<le> 2"
    by (intro decimal_length) (simp add: ESP8266_RX_BUFFER_SIZE_def)
  have f1: "feed s (text_of RX_PACKET_MSG) = Inr ?s1" using st by (rule feed_header)
  have f2: "feed ?s1 ?ds = Inr ?s2"
    using feed_length_field [of ?s1 ?ds] dl len decimal_chars [of _ L]
    by (auto simp: ESP8266_RX_BUFFER_SIZE_def)
  have f3: "feed ?s2 [0x3A] = Inr ?s3"
  proof (rule feed_colon)
    show "packet ?s2 = ?ds @ drop (length ?ds) (packet s)" by simp
    show "drop (length ?ds) (packet s) \<noteq> []"
      using dl len by (simp add: ESP8266_RX_BUFFER_SIZE_def)
    show "\<forall>c\<in>set ?ds. c \<noteq> 0" using decimal_chars by blast
    show "sscanf_d ?ds = Some (int L)" by (rule sscanf_decimal)
    show "INT_MIN \<le> int L" "int L \<le> INT_MAX"
      using L by (simp_all add: INT_MIN_def INT_MAX_def ESP8266_RX_BUFFER_SIZE_def)
  qed simp_all
  have l3: "length (packet ?s3) = ESP8266_RX_BUFFER_SIZE"
    using dl len by (simp add: ESP8266_RX_BUFFER_SIZE_def)
  have f4: "feed ?s3 body = Inr (?s3\<lparr>packet := take (nat (count ?s3)) (packet ?s3) @ body
                                   @ drop (nat (packetSize ?s3)) (packet ?s3),
                        count := packetSize ?s3, esp_state := ESP8266_RESET,
                        status := status ?s3 OR ESP8266_RX_PACKET_MESSAGE\<rparr>)"
  proof (rule feed_body)
    show "body \<noteq> []" using L body by auto
    show "count ?s3 + int (length body) = packetSize ?s3" using body by simp
    show "packetSize ?s3 \<le> int (length (packet ?s3))" using l3 L by simp
  qed simp_all
  have "feed s (text_of RX_PACKET_MSG @ decimal L @ [0x3A] @ body) = feed ?s3 body"
    by (simp only: feed_seq [OF f1] feed_seq [OF f2] feed_seq [OF f3])
  with f4 body show ?thesis by simp
qed

text \<open>
  The theorem at \<open>L = 2\<close> with the body 1, 75, from the initial state: the stream of the
  forward command at speed 75.
\<close>

theorem C1_packet_received_witness:
  "esp_state esp_init = ESP8266_RESET
   \<and> length (packet esp_init) = ESP8266_RX_BUFFER_SIZE
   \<and> (1::nat) \<le> 2 \<and> 2 \<le> ESP8266_RX_BUFFER_SIZE \<and> length [1, 75 :: u8] = 2
   \<and> (\<exists>s'. feed esp_init (text_of RX_PACKET_MSG @ decimal 2 @ [0x3A] @ [1, 75]) = Inr s'
          \<and> status s' = status esp_init OR ESP8266_RX_PACKET_MESSAGE
          \<and> packetSize s' = 2 \<and> take 2 (packet s') = [1, 75]
          \<and> esp_state s' = ESP8266_RESET)"
proof -
  have h: "esp_state esp_init = ESP8266_RESET"
    "length (packet esp_init) = ESP8266_RX_BUFFER_SIZE"
    "(1::nat) \<le> 2" "2 \<le> ESP8266_RX_BUFFER_SIZE" "length [1, 75 :: u8] = 2"
    by (simp_all add: esp_init_def ESP8266_RX_BUFFER_SIZE_def)
  from C1_packet_received [OF h] h show ?thesis by simp
qed

text \<open>
  Claim C1 as stated fails at \<open>L = 0\<close>: after \<open>+IPD,1,0:\<close> and no body byte the machine
  waits in the body state and the packet-available bit is clear. The end of a body is
  only tested after a body byte has been stored.
\<close>

theorem C1_zero_length_counterexample:
  "feed esp_init (text_of RX_PACKET_MSG @ decimal 0 @ [0x3A] @ [])
     = Inr \<lparr> esp_state = ESP8266_GET_RX_PACKET, count = 0,
             packet = 0x30 # replicate 63 0, packetSize = 0, status = 0 \<rparr>
   \<and> ESP8266_GET_RX_PACKET \<noteq> ESP8266_RESET
   \<and> (0::u8) AND ESP8266_RX_PACKET_MESSAGE = 0"
  by code_simp


section \<open>Literal messages\<close>

lemma below_2: "i < 2 \<Longrightarrow> i = 0 \<or> i = (1::nat)"
  by arith

lemma below_4: "i < 4 \<Longrightarrow> i = 0 \<or> i = 1 \<or> i = 2 \<or> i = (3::nat)"
  by arith

lemma below_7:
  "i < 7 \<Longrightarrow> i = 0 \<or> i = 1 \<or> i = 2 \<or> i = 3 \<or> i = 4 \<or> i = 5 \<or> i = (6::nat)"
  by arith

lemma exact_OK:
  "esp_state s = ESP8266_RESET \<Longrightarrow>
   feed s (text_of OK_MSG) = Inr (s\<lparr>count := 4, status := status s OR ESP8266_OK_MESSAGE\<rparr>)"
  by (simp add: text_of_def step_defs)

lemma exact_READY:
  "esp_state s = ESP8266_RESET \<Longrightarrow>
   feed s (text_of READY_MSG) =
     Inr (s\<lparr>count := 7, status := status s OR ESP8266_READY_MESSAGE\<rparr>)"
  by (simp add: text_of_def step_defs)

lemma exact_TX_READY:
  "esp_state s = ESP8266_RESET \<Longrightarrow>
   feed s (text_of TX_READY_MSG) =
     Inr (s\<lparr>count := 2, status := status s OR ESP8266_TX_READY_MESSAGE\<rparr>)"
  by (simp add: text_of_def step_defs)

text \<open>
  A stream is rejected when the run ends idle with the status word, the packet buffer and
  the recorded length as they were.
\<close>

lemma corrupt_OK:
  assumes "esp_state s = ESP8266_RESET" "i < length (text_of OK_MSG)"
    "b \<noteq> text_of OK_MSG ! i"
  shows "\<exists>s'. feed s ((text_of OK_MSG)[i := b]) = Inr s' \<and> status s' = status s
           \<and> esp_state s' = ESP8266_RESET \<and> packet s' = packet s
           \<and> packetSize s' = packetSize s"
proof -
  from assms(2) have "i = 0 \<or> i = 1 \<or> i = 2 \<or> i = 3"
    by (intro below_4) (simp add: text_of_def OK_MSG_def)
  with assms(1,3) show ?thesis
    by (elim disjE) (auto simp: text_of_def step_defs Let_def)
qed

lemma corrupt_READY:
  assumes "esp_state s = ESP8266_RESET" "i < length (text_of READY_MSG)"
    "b \<noteq> text_of READY_MSG ! i"
  shows "\<exists>s'. feed s ((text_of READY_MSG)[i := b]) = Inr s' \<and> status s' = status s
           \<and> esp_state s' = ESP8266_RESET \<and> packet s' = packet s
           \<and> packetSize s' = packetSize s"
proof -
  from assms(2) have "i = 0 \<or> i = 1 \<or> i = 2 \<or> i = 3 \<or> i = 4 \<or> i = 5 \<or> i = 6"
    by (intro below_7) (simp add: text_of_def READY_MSG_def)
  with assms(1,3) show ?thesis
    by (elim disjE) (auto simp: text_of_def step_defs Let_def)
qed

lemma corrupt_TX_READY:
  assumes "esp_state s = ESP8266_RESET" "i < length (text_of TX_READY_MSG)"
    "b \<noteq> text_of TX_READY_MSG ! i"
  shows "\<exists>s'. feed s ((text_of TX_READY_MSG)[i := b]) = Inr s' \<and> status s' = status s
           \<and> esp_state s' = ESP8266_RESET \<and> packet s' = packet s
           \<and> packetSize s' = packetSize s"
proof -
  from assms(2) have "i = 0 \<or> i = 1"
    by (intro below_2) (simp add: text_of_def TX_READY_MSG_def)
  with assms(1,3) show ?thesis
    by (elim disjE) (auto simp: text_of_def step_defs Let_def)
qed

lemma corrupt_RX_PACKET:
  assumes "esp_state s = ESP8266_RESET" "i < length (text_of RX_PACKET_MSG)"
    "b \<noteq> text_of RX_PACKET_MSG ! i"
  shows "\<exists>s'. feed s ((text_of RX_PACKET_MSG)[i := b]) = Inr s' \<and> status s' = status s
           \<and> esp_state s' = ESP8266_RESET \<and> packet s' = packet s
           \<and> packetSize s' = packetSize s"
proof -
  from assms(2) have "i = 0 \<or> i = 1 \<or> i = 2 \<or> i = 3 \<or> i = 4 \<or> i = 5 \<or> i = 6"
    by (intro below_7) (simp add: text_of_def RX_PACKET_MSG_def)
  with assms(1,3) show ?thesis
    by (elim disjE) (auto simp: text_of_def step_defs Let_def)
qed

text \<open>
  Claim C2. From any state in which the machine is idle: the exact bytes of \<open>OK\r\n\<close>,
  of \<open>ready\r\n\<close> and of \<open>> \<close> each set their own status bit and nothing else, and the
  machine is idle again; the exact bytes of the header \<open>+IPD,1,\<close> set no bit and leave
  the machine reading the length field with the counter at zero. For each of the four
  literals, every offset and every wrong byte put at that offset, the corrupted sequence
  ends with the machine idle and the status word (and the packet buffer and the recorded
  length) as before.
\<close>

theorem C2_literal_messages:
  assumes "esp_state s = ESP8266_RESET"
  shows "feed s (text_of OK_MSG)
           = Inr (s\<lparr>count := 4, status := status s OR ESP8266_OK_MESSAGE\<rparr>)
       \<and> feed s (text_of READY_MSG)
           = Inr (s\<lparr>count := 7, status := status s OR ESP8266_READY_MESSAGE\<rparr>)
       \<and> feed s (text_of TX_READY_MSG)
           = Inr (s\<lparr>count := 2, status := status s OR ESP8266_TX_READY_MESSAGE\<rparr>)
       \<and> feed s (text_of RX_PACKET_MSG)
           = Inr (s\<lparr>esp_state := ESP8266_GET_RX_PACKET_SIZE, count := 0\<rparr>)
       \<and> (\<forall>msg \<in> {OK_MSG, READY_MSG, TX_READY_MSG, RX_PACKET_MSG}.
            \<forall>i < length (text_of msg). \<forall>b. b \<noteq> text_of msg ! i \<longrightarrow>
              (\<exists>s'. feed s ((text_of msg)[i := b]) = Inr s' \<and> status s' = status s
                 \<and> esp_state s' = ESP8266_RESET \<and> packet s' = packet s
                 \<and> packetSize s' = packetSize s))"
  using assms exact_OK exact_READY exact_TX_READY feed_header
    corrupt_OK corrupt_READY corrupt_TX_READY corrupt_RX_PACKET
  by simp

text \<open>
  The theorem from the initial state: \<open>OK\r\n\<close> sets bit \<open>0x01\<close>, and \<open>OX\r\n\<close> (the
  second byte wrong) sets nothing.
\<close>

theorem C2_literal_messages_witness:
  "esp_state esp_init = ESP8266_RESET
   \<and> feed esp_init (text_of OK_MSG) = Inr (esp_init\<lparr>count := 4, status := 0x01\<rparr>)
   \<and> (1::nat) < length (text_of OK_MSG) \<and> (0x58::u8) \<noteq> text_of OK_MSG ! 1
   \<and> (\<exists>s'. feed esp_init ((text_of OK_MSG)[1 := 0x58]) = Inr s'
         \<and> status s' = status esp_init \<and> esp_state s' = ESP8266_RESET
         \<and> packet s' = packet esp_init \<and> packetSize s' = packetSize esp_init)"
proof -
  have h: "esp_state esp_init = ESP8266_RESET" by (simp add: esp_init_def)
  have i: "(1::nat) < length (text_of OK_MSG)" "(0x58::u8) \<noteq> text_of OK_MSG ! 1"
    by (simp_all add: text_of_def OK_MSG_def)
  note t = C2_literal_messages [OF h]
  from t have "feed esp_init (text_of OK_MSG)
      = Inr (esp_init\<lparr>count := 4, status := status esp_init OR ESP8266_OK_MESSAGE\<rparr>)"
    by blast
  then have a: "feed esp_init (text_of OK_MSG) = Inr (esp_init\<lparr>count := 4, status := 0x01\<rparr>)"
    by (simp add: esp_init_def ESP8266_OK_MESSAGE_def)
  from t i have "\<exists>s'. feed esp_init ((text_of OK_MSG)[1 := 0x58]) = Inr s'
         \<and> status s' = status esp_init \<and> esp_state s' = ESP8266_RESET
         \<and> packet s' = packet esp_init \<and> packetSize s' = packetSize esp_init"
    by blast
  with h a i show ?thesis by blast
qed

section \<open>A truncated packet\<close>

lemma upto_10:
  "k \<le> 10 \<Longrightarrow> k = 0 \<or> k = 1 \<or> k = 2 \<or> k = 3 \<or> k = 4 \<or> k = 5 \<or> k = 6 \<or> k = 7
     \<or> k = 8 \<or> k = 9 \<or> k = (10::nat)"
  by arith

text \<open>
  Claim C8. From a state in which the machine is idle and the packet-available bit is
  clear, the stream \<open>+IPD,1,2:\<close> followed by the single body byte 0 leaves the bit clear
  after every byte of the stream, and a call of \<open>Esp8266_ReceiveMsg\<close> after the stream
  returns 0 (and copies nothing).
\<close>

theorem C8_truncated_packet:
  assumes "esp_state s = ESP8266_RESET" "status s AND ESP8266_RX_PACKET_MESSAGE = 0"
    "length (packet s) = ESP8266_RX_BUFFER_SIZE"
  shows "(\<forall>k \<le> length truncated. \<exists>s'. feed s (take k truncated) = Inr s'
            \<and> status s' AND ESP8266_RX_PACKET_MESSAGE = 0)
       \<and> (\<exists>s'. feed s truncated = Inr s' \<and> Esp8266_ReceiveMsg p s' = Inr (0, p, s'))"
proof -
  from assms(3) obtain p0 p1 rest where pk: "packet s = p0 # p1 # rest"
    by (cases "packet s"; cases "tl (packet s)") (auto simp: ESP8266_RX_BUFFER_SIZE_def)
  have len: "length truncated = 10"
    by (simp add: truncated_def text_of_def RX_PACKET_MSG_def)
  have pre: "\<exists>s'. feed s (take k truncated) = Inr s' \<and> status s' = status s"
    if "k \<le> 10" for k
    using upto_10 [OF that] assms(1) pk
    by (elim disjE)
       (simp_all add: truncated_def text_of_def step_defs Let_def c_str_def sscanf_d_def
          scan_unsigned_def isspace_def isdigit_def INT_MIN_def INT_MAX_def)
  from pre [of 10] len obtain s' where s': "feed s truncated = Inr s'" "status s' = status s"
    by auto
  with assms(2) have "Esp8266_ReceiveMsg p s' = Inr (0, p, s')"
    by (simp add: Esp8266_ReceiveMsg_def)
  with s' pre len assms(2) show ?thesis by fastforce
qed

text \<open>The theorem from the initial state, with a caller's buffer of 64 zero bytes.\<close>

theorem C8_truncated_packet_witness:
  "esp_state esp_init = ESP8266_RESET
   \<and> status esp_init AND ESP8266_RX_PACKET_MESSAGE = 0
   \<and> length (packet esp_init) = ESP8266_RX_BUFFER_SIZE
   \<and> (\<exists>s'. feed esp_init truncated = Inr s'
         \<and> Esp8266_ReceiveMsg (replicate 64 0) s' = Inr (0, replicate 64 0, s'))"
proof -
  have h: "esp_state esp_init = ESP8266_RESET"
    "status esp_init AND ESP8266_RX_PACKET_MESSAGE = 0"
    "length (packet esp_init) = ESP8266_RX_BUFFER_SIZE"
    by (simp_all add: esp_init_def ESP8266_RX_BUFFER_SIZE_def)
  from C8_truncated_packet [OF h] h show ?thesis by blast
qed

section \<open>Writes to the packet buffer\<close>

lemma step_inv:
  assumes "engine_inv s" "Esp8266_ProcessRxByte b s = Inr s'"
    "esp_state s = ESP8266_GET_RX_PACKET_SIZE \<and> esp_state s' = ESP8266_GET_RX_PACKET
       \<longrightarrow> packetSize s' \<le> 64"
  shows "engine_inv s'"
proof (cases "esp_state s")
  case ESP8266_GET_RX_PACKET_SIZE
  with assms show ?thesis
    by (auto simp: engine_inv_def Esp8266_ProcessRxByte_def Let_def ESP8266_RX_BUFFER_SIZE_def
             split: if_splits option.splits)
next
  case ESP8266_GET_RX_PACKET
  with assms show ?thesis
    by (auto simp: engine_inv_def Esp8266_ProcessRxByte_def Let_def ESP8266_RX_BUFFER_SIZE_def
             split: if_splits)
qed (use assms in \<open>auto simp: engine_inv_def step_defs Let_def ESP8266_RX_BUFFER_SIZE_def
             split: if_splits\<close>)

text \<open>The counter while a length field is read: the number of bytes of the field so far.\<close>

lemma step_field_count:
  assumes "esp_state s = ESP8266_GET_RX_PACKET_SIZE \<longrightarrow> count s = int n"
    "Esp8266_ProcessRxByte b s = Inr s'" "esp_state s' = ESP8266_GET_RX_PACKET_SIZE"
  shows "count s' = int (if esp_state s = ESP8266_GET_RX_PACKET_SIZE then Suc n else 0)"
proof (cases "esp_state s")
  case ESP8266_GET_RX_PACKET_SIZE
  with assms show ?thesis
    by (auto simp: Esp8266_ProcessRxByte_def Let_def split: if_splits option.splits)
next
  case ESP8266_GET_RX_PACKET
  with assms show ?thesis
    by (auto simp: Esp8266_ProcessRxByte_def Let_def split: if_splits)
qed (use assms in \<open>auto simp: step_defs Let_def split: if_splits option.splits\<close>)

lemma step_fault:
  assumes "engine_inv s" "Esp8266_ProcessRxByte b s = Inl f"
  shows "(esp_state s = ESP8266_GET_RX_PACKET_SIZE \<and> count s = 64 \<and> f = LengthFieldIndex 64)
       \<or> (\<exists>n. f = ScanOverflow n \<and> (n < INT_MIN \<or> INT_MAX < n))"
proof (cases "esp_state s")
  case ESP8266_GET_RX_PACKET_SIZE
  with assms show ?thesis
    by (auto simp: engine_inv_def Esp8266_ProcessRxByte_def Let_def ESP8266_RX_BUFFER_SIZE_def
             split: if_splits option.splits)
qed (use assms in \<open>auto simp: engine_inv_def step_defs Let_def ESP8266_RX_BUFFER_SIZE_def
             split: if_splits\<close>)

lemma run_faults:
  assumes "engine_inv s" "esp_state s = ESP8266_GET_RX_PACKET_SIZE \<longrightarrow> count s = int n"
    "\<forall>L \<in> set (declared s bs). INT_MIN \<le> L \<and> L \<le> 64" "feed s bs = Inl f"
  shows "f = LengthFieldIndex 64 \<and> 65 \<in> set (field_positions n s bs)"
  using assms
proof (induction bs arbitrary: s n)
  case Nil
  then show ?case by simp
next
  case (Cons b bs)
  show ?case
  proof (cases "Esp8266_ProcessRxByte b s")
    case (Inl g)
    with Cons.prems have fg: "f = g" by simp
    from step_fault [OF Cons.prems(1) Inl]
    show ?thesis
    proof
      assume a: "esp_state s = ESP8266_GET_RX_PACKET_SIZE \<and> count s = 64
          \<and> g = LengthFieldIndex 64"
      with Cons.prems(2) have "n = 64" by simp
      with a fg show ?thesis by simp
    next
      assume "\<exists>m. g = ScanOverflow m \<and> (m < INT_MIN \<or> INT_MAX < m)"
      then obtain m where m: "g = ScanOverflow m" "m < INT_MIN \<or> INT_MAX < m" by blast
      with Inl Cons.prems(3) have "INT_MIN \<le> m \<and> m \<le> 64" by simp
      with m show ?thesis by (auto simp: INT_MAX_def)
    qed
  next
    case (Inr s')
    let ?n' = "if esp_state s = ESP8266_GET_RX_PACKET_SIZE then Suc n else 0"
    from Inr Cons.prems(3) have d: "\<forall>L \<in> set (declared s' bs). INT_MIN \<le> L \<and> L \<le> 64"
      by (auto split: if_splits)
    from Inr Cons.prems(3) have
      "esp_state s = ESP8266_GET_RX_PACKET_SIZE \<and> esp_state s' = ESP8266_GET_RX_PACKET
         \<longrightarrow> packetSize s' \<le> 64"
      by auto
    with Cons.prems(1) Inr have i: "engine_inv s'" by (rule step_inv)
    from step_field_count [OF Cons.prems(2) Inr]
    have c: "esp_state s' = ESP8266_GET_RX_PACKET_SIZE \<longrightarrow> count s' = int ?n'" by blast
    from Inr Cons.prems(4) have "feed s' bs = Inl f" by simp
    from Cons.IH [OF i c d this]
    have "f = LengthFieldIndex 64" "65 \<in> set (field_positions ?n' s' bs)" by simp_all
    with Inr show ?thesis by (auto split: if_splits)
  qed
qed

text \<open>
  Claim C9, as amended. A write to \<open>packet\<close> at an index outside \<open>0..63\<close> ends the run
  with a fault that carries the index, and nothing else ends a run early but a scanned
  length that the 16-bit \<open>int\<close> cannot hold. For every input stream, fed from a state in
  which the machine is idle, whose declared packet lengths all fit the 16-bit \<open>int\<close> and
  are at most 64: either the run goes through, so that every write of a body byte and
  every write of the length field was at an index below 64, or the run ends at a write
  of the length field at index 64, and then the stream holds a length field with a 65th
  byte (the closing colon, which stores the terminating NUL, counted). When the length
  fields of the stream have at most 64 bytes each, the run goes through: all its writes
  are below 64.
\<close>

theorem C9_writes_in_bounds:
  assumes "esp_state s = ESP8266_RESET" "length (packet s) = ESP8266_RX_BUFFER_SIZE"
    "\<forall>L \<in> set (declared s bs). INT_MIN \<le> L \<and> L \<le> 64"
  shows "((\<exists>s'. feed s bs = Inr s')
          \<or> (feed s bs = Inl (LengthFieldIndex 64) \<and> 65 \<in> set (field_positions 0 s bs)))
       \<and> ((\<forall>k \<in> set (field_positions 0 s bs). k \<le> 64) \<longrightarrow> (\<exists>s'. feed s bs = Inr s'))"
proof -
  have a: "(\<exists>s'. feed s bs = Inr s')
      \<or> (feed s bs = Inl (LengthFieldIndex 64) \<and> 65 \<in> set (field_positions 0 s bs))"
  proof (cases "feed s bs")
    case (Inl f)
    from assms(1,2) have i: "engine_inv s" by (simp add: engine_inv_def)
    from assms(1) have c: "esp_state s = ESP8266_GET_RX_PACKET_SIZE \<longrightarrow> count s = int 0"
      by simp
    from run_faults [OF i c assms(3) Inl] Inl show ?thesis by simp
  next
    case (Inr s')
    then show ?thesis by simp
  qed
  then have "(\<forall>k \<in> set (field_positions 0 s bs). k \<le> 64) \<longrightarrow> (\<exists>s'. feed s bs = Inr s')"
    by fastforce
  with a show ?thesis by blast
qed

text \<open>
  The theorem on the forward command at speed 75, from the initial state: one declared
  length, 2, a length field of two bytes, and the run goes through.
\<close>

theorem C9_writes_in_bounds_witness:
  "esp_state esp_init = ESP8266_RESET
   \<and> length (packet esp_init) = ESP8266_RX_BUFFER_SIZE
   \<and> declared esp_init forward75 = [2] \<and> INT_MIN \<le> 2 \<and> (2::int) \<le> 64
   \<and> field_positions 0 esp_init forward75 = [1, 2]
   \<and> feed esp_init forward75 = Inr received75"
proof -
  have h: "esp_state esp_init = ESP8266_RESET"
    "length (packet esp_init) = ESP8266_RX_BUFFER_SIZE"
    by (simp_all add: esp_init_def ESP8266_RX_BUFFER_SIZE_def)
  have d: "declared esp_init forward75 = [2]" by code_simp
  have m: "INT_MIN \<le> 2" by (simp add: INT_MIN_def)
  from d m have b: "\<forall>L \<in> set (declared esp_init forward75). INT_MIN \<le> L \<and> L \<le> 64"
    by simp
  have p: "field_positions 0 esp_init forward75 = [1, 2]" by code_simp
  then have "\<forall>k \<in> set (field_positions 0 esp_init forward75). k \<le> 64" by simp
  with C9_writes_in_bounds [OF h b] obtain s' where s': "feed esp_init forward75 = Inr s'"
    by blast
  moreover have "feed esp_init forward75 = Inr received75" by code_simp
  ultimately show ?thesis using h d m p by simp
qed

text \<open>
  Claim C9 as stated fails: after a packet of declared length 1, a length field of 64
  digits \<open>0\<close> is stored at the indices 0 to 63 and the closing colon, the 65th byte of
  the field, stores the NUL at index 64. The only declared length of the stream is 1.
\<close>

theorem C9_length_field_counterexample:
  "declared esp_init long_length_field = [1]
   \<and> feed esp_init long_length_field = Inl (LengthFieldIndex 64)
   \<and> write_fault (feed esp_init long_length_field) = Some 64"
  by code_simp


section \<open>Receiving a packet\<close>

lemma and_not_and: "(x AND NOT m) AND m = (0::u8)"
  by (simp add: bit_eq_iff bit_simps)

text \<open>
  Claim C6, as amended. With the packet-available bit clear the call returns 0 and
  changes neither the caller's buffer nor the engine. With the bit set and a recorded
  length that is not negative and exceeds neither the packet buffer nor the caller's
  buffer, the call clears that bit, copies the first \<open>packetSize\<close> bytes of \<open>packet\<close>
  to the front of the caller's buffer and returns \<open>packetSize\<close>. In both cases a
  second call right after it returns 0 and copies nothing, so of two consecutive calls
  at most the first returns a nonzero length.
\<close>

theorem C6_receive_consumes:
  assumes "status s AND ESP8266_RX_PACKET_MESSAGE = 0
     \<or> (0 \<le> packetSize s \<and> packetSize s \<le> int (length (packet s))
          \<and> packetSize s \<le> int (length p))"
  shows "\<exists>n p' s'. Esp8266_ReceiveMsg p s = Inr (n, p', s')
     \<and> (if status s AND ESP8266_RX_PACKET_MESSAGE = 0 then n = 0 \<and> p' = p \<and> s' = s
         else n = packetSize s
            \<and> p' = take (nat (packetSize s)) (packet s) @ drop (nat (packetSize s)) p
            \<and> s' = s\<lparr>status := status s AND NOT ESP8266_RX_PACKET_MESSAGE\<rparr>)
     \<and> Esp8266_ReceiveMsg p' s' = Inr (0, p', s')"
  using assms
  by (auto simp: Esp8266_ReceiveMsg_def memcpy_def Let_def and_not_and)

text \<open>
  The theorem on the state after the forward command at speed 75 has been received:
  the first call returns 2 and the body, the second returns 0.
\<close>

theorem C6_receive_consumes_witness:
  "feed esp_init forward75 = Inr received75
   \<and> 0 \<le> packetSize received75 \<and> packetSize received75 \<le> int (length (packet received75))
   \<and> packetSize received75 \<le> int (length (replicate 64 (0::u8)))
   \<and> Esp8266_ReceiveMsg (replicate 64 0) received75
       = Inr (2, 1 # 75 # replicate 62 0, received75\<lparr>status := 0\<rparr>)
   \<and> Esp8266_ReceiveMsg (1 # 75 # replicate 62 0) (received75\<lparr>status := 0\<rparr>)
       = Inr (0, 1 # 75 # replicate 62 0, received75\<lparr>status := 0\<rparr>)"
proof -
  have f: "feed esp_init forward75 = Inr received75" by code_simp
  have h: "0 \<le> packetSize received75 \<and> packetSize received75 \<le> int (length (packet received75))
      \<and> packetSize received75 \<le> int (length (replicate 64 (0::u8)))"
    by (simp add: received75_def)
  have r: "Esp8266_ReceiveMsg (replicate 64 0) received75
      = Inr (2, 1 # 75 # replicate 62 0, received75\<lparr>status := 0\<rparr>)"
    by code_simp
  from C6_receive_consumes [of received75 "replicate 64 0"] h r
  have "Esp8266_ReceiveMsg (1 # 75 # replicate 62 0) (received75\<lparr>status := 0\<rparr>)
       = Inr (0, 1 # 75 # replicate 62 0, received75\<lparr>status := 0\<rparr>)"
    by auto
  with f h r show ?thesis by simp
qed

text \<open>
  Claim C6 as stated fails when the recorded length is negative. The stream
  \<open>+IPD,1,-5:A\<close> is scanned as the length \<open>-5\<close>, its first body byte completes the
  packet, and the machine is idle with the packet-available bit set. The call then
  reaches \<open>memcpy\<close> with the length \<open>-5\<close>, a huge \<open>size_t\<close>: the copy leaves both
  arrays, and the call neither copies the body nor returns in a defined way.
\<close>

theorem C6_negative_length_counterexample:
  "feed esp_init negative_length = Inr negative_received
   \<and> status negative_received AND ESP8266_RX_PACKET_MESSAGE = ESP8266_RX_PACKET_MESSAGE
   \<and> packetSize negative_received = - 5
   \<and> Esp8266_ReceiveMsg (replicate 64 0) negative_received = Inl (CopyOutOfBounds (- 5))"
  by code_simp

text \<open>
  Claim C10, as amended. With the packet-available bit clear, and with the bit set and a
  recorded length that is not negative and exceeds neither the packet buffer nor the
  caller's buffer, the call leaves the packet buffer, the recorded length and every
  status bit other than the packet-available bit as they were; the parsing state and the
  counter are untouched too.
\<close>

theorem C10_receive_frame:
  assumes "status s AND ESP8266_RX_PACKET_MESSAGE = 0
     \<or> (0 \<le> packetSize s \<and> packetSize s \<le> int (length (packet s))
          \<and> packetSize s \<le> int (length p))"
  shows "\<exists>n p' s'. Esp8266_ReceiveMsg p s = Inr (n, p', s')
     \<and> packet s' = packet s \<and> packetSize s' = packetSize s
     \<and> status s' AND NOT ESP8266_RX_PACKET_MESSAGE = status s AND NOT ESP8266_RX_PACKET_MESSAGE
     \<and> esp_state s' = esp_state s \<and> count s' = count s"
  using assms
  by (auto simp: Esp8266_ReceiveMsg_def memcpy_def Let_def)

text \<open>
  The theorem on a state with a packet available and the acknowledgment bit set as well:
  the acknowledgment bit survives the call.
\<close>

theorem C10_receive_frame_witness:
  "0 \<le> packetSize (received75\<lparr>status := 0x09\<rparr>)
   \<and> packetSize (received75\<lparr>status := 0x09\<rparr>) \<le> int (length (packet (received75\<lparr>status := 0x09\<rparr>)))
   \<and> packetSize (received75\<lparr>status := 0x09\<rparr>) \<le> int (length (replicate 64 (0::u8)))
   \<and> (\<exists>n p' s'. Esp8266_ReceiveMsg (replicate 64 0) (received75\<lparr>status := 0x09\<rparr>) = Inr (n, p', s')
        \<and> packet s' = packet received75 \<and> packetSize s' = 2
        \<and> status s' AND NOT ESP8266_RX_PACKET_MESSAGE = 0x01)"
proof -
  have h: "0 \<le> packetSize (received75\<lparr>status := 0x09\<rparr>)
      \<and> packetSize (received75\<lparr>status := 0x09\<rparr>) \<le> int (length (packet (received75\<lparr>status := 0x09\<rparr>)))
      \<and> packetSize (received75\<lparr>status := 0x09\<rparr>) \<le> int (length (replicate 64 (0::u8)))"
    by (simp add: received75_def)
  have e: "(0x09::u8) AND NOT ESP8266_RX_PACKET_MESSAGE = 0x01"
    by (simp add: ESP8266_RX_PACKET_MESSAGE_def)
  from C10_receive_frame [of "received75\<lparr>status := 0x09\<rparr>" "replicate 64 0"] h
  obtain n p' s' where
    "Esp8266_ReceiveMsg (replicate 64 0) (received75\<lparr>status := 0x09\<rparr>) = Inr (n, p', s')"
    "packet s' = packet received75" "packetSize s' = packetSize received75"
    "status s' AND NOT ESP8266_RX_PACKET_MESSAGE = 0x09 AND NOT ESP8266_RX_PACKET_MESSAGE"
    by auto
  with h e show ?thesis by (auto simp: received75_def)
qed

text \<open>
  Claim C10 as stated fails in the packet-available case with a negative recorded
  length. In the state the stream \<open>+IPD,1,-5:A\<close> leads to, the \<open>memcpy\<close> of the call
  is asked for \<open>-5\<close> bytes, that is for more bytes than the packet buffer and the
  caller's 64-byte buffer hold: the call writes outside the caller's buffer, and what
  becomes of the engine's variables is undefined.
\<close>

theorem C10_negative_length_counterexample:
  "feed esp_init negative_length = Inr negative_received
   \<and> memcpy (replicate 64 0) (packet negative_received) (packetSize negative_received)
       = Inl (CopyOutOfBounds (- 5))
   \<and> Esp8266_ReceiveMsg (replicate 64 0) negative_received = Inl (CopyOutOfBounds (- 5))"
  by code_simp


section \<open>Waiting for a response\<close>

lemma wait_timeout: "WaitForResponse m t env s = WaitForResponse m t' env s"
  by (induction env arbitrary: s) (auto split: sum.splits)

lemma wait_returns:
  "WaitForResponse m t env s = Some (Inr (r, s', env')) \<Longrightarrow>
   r = 1 \<and> (\<exists>k sk. k \<le> length env \<and> env' = drop k env
        \<and> feed s (concat (take k env)) = Inr sk
        \<and> status sk AND m = m \<and> s' = sk\<lparr>status := status sk AND NOT m\<rparr>
        \<and> (\<forall>j<k. \<exists>sj. feed s (concat (take j env)) = Inr sj \<and> status sj AND m \<noteq> m))"
proof (induction env arbitrary: s)
  case Nil
  then show ?case by (auto split: if_splits)
next
  case (Cons bs env)
  show ?case
  proof (cases "status s AND m = m")
    case True
    with Cons.prems have "r = 1" "s' = s\<lparr>status := status s AND NOT m\<rparr>" "env' = bs # env"
      by auto
    with True show ?thesis by (intro conjI exI [of _ 0] exI [of _ s]) auto
  next
    case False
    with Cons.prems obtain s1 where s1: "feed s bs = Inr s1"
      and w: "WaitForResponse m t env s1 = Some (Inr (r, s', env'))"
      by (auto split: sum.splits)
    from Cons.IH [OF w] obtain k sk where k: "r = 1" "k \<le> length env" "env' = drop k env"
      "feed s1 (concat (take k env)) = Inr sk" "status sk AND m = m"
      "s' = sk\<lparr>status := status sk AND NOT m\<rparr>"
      "\<forall>j<k. \<exists>sj. feed s1 (concat (take j env)) = Inr sj \<and> status sj AND m \<noteq> m"
      by blast
    have "\<forall>j<Suc k. \<exists>sj. feed s (concat (take j (bs # env))) = Inr sj \<and> status sj AND m \<noteq> m"
    proof (intro allI impI)
      fix j assume "j < Suc k"
      show "\<exists>sj. feed s (concat (take j (bs # env))) = Inr sj \<and> status sj AND m \<noteq> m"
      proof (cases j)
        case 0
        with False show ?thesis by simp
      next
        case (Suc i)
        with \<open>j < Suc k\<close> k(7) s1 show ?thesis by (simp add: feed_append)
      qed
    qed
    with k s1 show ?thesis
      by (intro conjI exI [of _ "Suc k"] exI [of _ sk]) (simp_all add: feed_append)
  qed
qed

lemma wait_succeeds:
  "k \<le> length env \<Longrightarrow> feed s (concat (take k env)) = Inr sk \<Longrightarrow> status sk AND m = m \<Longrightarrow>
   \<exists>s' env'. WaitForResponse m t env s = Some (Inr (1, s', env'))"
proof (induction env arbitrary: s k)
  case Nil
  then show ?case by simp
next
  case (Cons bs env)
  show ?case
  proof (cases "status s AND m = m")
    case True
    then show ?thesis by simp
  next
    case False
    with Cons.prems obtain k' where k': "k = Suc k'" by (cases k) auto
    with Cons.prems obtain s1 where s1: "feed s bs = Inr s1"
      "feed s1 (concat (take k' env)) = Inr sk"
      by (auto simp: feed_append split: sum.splits)
    with Cons.prems k' have "\<exists>s' env'. WaitForResponse m t env s1 = Some (Inr (1, s', env'))"
      by (intro Cons.IH [of k']) auto
    with False s1 show ?thesis by simp
  qed
qed

text \<open>
  Claim C4. The timeout argument has no effect: for any two timeouts the call behaves
  the same, whether it returns, never returns or runs into a fault of the interrupt
  handler. A call that returns has return value 1, never 0, and it returns at the first
  poll at which all bits of the mask are set in the status word: at every earlier poll
  some bit of the mask was clear. Conversely, if at some poll all bits of the mask are
  set, the call returns 1.
\<close>

theorem C4_wait_ignores_timeout:
  "WaitForResponse m t env s = WaitForResponse m t' env s
   \<and> (\<forall>r s' env'. WaitForResponse m t env s = Some (Inr (r, s', env')) \<longrightarrow>
        r = 1 \<and> r \<noteq> 0
        \<and> (\<exists>k sk. k \<le> length env \<and> env' = drop k env
              \<and> feed s (concat (take k env)) = Inr sk \<and> status sk AND m = m
              \<and> (\<forall>j<k. \<exists>sj. feed s (concat (take j env)) = Inr sj \<and> status sj AND m \<noteq> m)))
   \<and> (\<forall>k sk. k \<le> length env \<and> feed s (concat (take k env)) = Inr sk \<and> status sk AND m = m
        \<longrightarrow> (\<exists>s' env'. WaitForResponse m t env s = Some (Inr (1, s', env'))))"
proof (intro conjI allI impI)
  show "WaitForResponse m t env s = WaitForResponse m t' env s" by (rule wait_timeout)
next
  fix r s' env' assume "WaitForResponse m t env s = Some (Inr (r, s', env'))"
  from wait_returns [OF this]
  show "r = 1" "r \<noteq> 0"
    "\<exists>k sk. k \<le> length env \<and> env' = drop k env
        \<and> feed s (concat (take k env)) = Inr sk \<and> status sk AND m = m
        \<and> (\<forall>j<k. \<exists>sj. feed s (concat (take j env)) = Inr sj \<and> status sj AND m \<noteq> m)"
    by auto
next
  fix k sk
  assume "k \<le> length env \<and> feed s (concat (take k env)) = Inr sk \<and> status sk AND m = m"
  then show "\<exists>s' env'. WaitForResponse m t env s = Some (Inr (1, s', env'))"
    using wait_succeeds by blast
qed

text \<open>
  The theorem on a wait for the acknowledgment that starts with the packet-available bit
  set, while \<open>OK\r\n\<close> arrives in three batches followed by a prompt byte: with the
  short and with the long timeout the call returns 1 at the fourth poll.
\<close>

theorem C4_wait_ignores_timeout_witness:
  "WaitForResponse ESP8266_OK_MESSAGE TIMEOUT_SHORT ok_batches (esp_init\<lparr>status := 0x08\<rparr>)
     = Some (Inr (1, esp_init\<lparr>count := 4, status := 0x08\<rparr>, [[0x3E]]))
   \<and> WaitForResponse ESP8266_OK_MESSAGE TIMEOUT_LONG ok_batches (esp_init\<lparr>status := 0x08\<rparr>)
     = Some (Inr (1, esp_init\<lparr>count := 4, status := 0x08\<rparr>, [[0x3E]]))"
proof -
  have a: "WaitForResponse ESP8266_OK_MESSAGE TIMEOUT_SHORT ok_batches (esp_init\<lparr>status := 0x08\<rparr>)
     = Some (Inr (1, esp_init\<lparr>count := 4, status := 0x08\<rparr>, [[0x3E]]))"
    by code_simp
  from C4_wait_ignores_timeout
    [of ESP8266_OK_MESSAGE TIMEOUT_SHORT ok_batches "esp_init\<lparr>status := 0x08\<rparr>" TIMEOUT_LONG]
  have "WaitForResponse ESP8266_OK_MESSAGE TIMEOUT_SHORT ok_batches (esp_init\<lparr>status := 0x08\<rparr>)
      = WaitForResponse ESP8266_OK_MESSAGE TIMEOUT_LONG ok_batches (esp_init\<lparr>status := 0x08\<rparr>)"
    by blast
  with a show ?thesis by simp
qed

text \<open>
  Claim C5. When the call returns, the status word afterwards is the status word of the
  successful poll with exactly the bits of the mask cleared: the bits outside the mask
  are as they were at that poll, the bits of the mask are clear, and nothing else of the
  engine changes. For a mask that holds a flag, the occurrence is used up: the status
  word no longer satisfies the mask, and a second wait on the same mask during which no
  byte arrives never returns.
\<close>

theorem C5_wait_clears_mask:
  assumes "WaitForResponse m t env s = Some (Inr (r, s', env'))"
  shows "\<exists>k sk. k \<le> length env \<and> env' = drop k env
           \<and> feed s (concat (take k env)) = Inr sk \<and> status sk AND m = m
           \<and> s' = sk\<lparr>status := status sk AND NOT m\<rparr>
           \<and> status s' AND NOT m = status sk AND NOT m
           \<and> status s' AND m = 0
           \<and> (m \<noteq> 0 \<longrightarrow> status s' AND m \<noteq> m \<and> WaitForResponse m t2 [] s' = None)"
proof -
  from wait_returns [OF assms] obtain k sk where k: "k \<le> length env" "env' = drop k env"
    "feed s (concat (take k env)) = Inr sk" "status sk AND m = m"
    "s' = sk\<lparr>status := status sk AND NOT m\<rparr>"
    by blast
  from k(5) have c: "status s' AND m = 0" by (simp add: and_not_and)
  from k(5) have o: "status s' AND NOT m = status sk AND NOT m"
    by (simp add: and.assoc)
  from c have "m \<noteq> 0 \<longrightarrow> status s' AND m \<noteq> m \<and> WaitForResponse m t2 [] s' = None"
    by auto
  with k c o show ?thesis by blast
qed

text \<open>
  The theorem on the wait of the previous witness: the packet-available bit, outside the
  mask, is still set afterwards, and a second wait with no further input never returns.
\<close>

theorem C5_wait_clears_mask_witness:
  "WaitForResponse ESP8266_OK_MESSAGE TIMEOUT_SHORT ok_batches (esp_init\<lparr>status := 0x08\<rparr>)
     = Some (Inr (1, esp_init\<lparr>count := 4, status := 0x08\<rparr>, [[0x3E]]))
   \<and> ESP8266_OK_MESSAGE \<noteq> 0
   \<and> status (esp_init\<lparr>count := 4, status := 0x08\<rparr>) AND ESP8266_OK_MESSAGE = 0
   \<and> WaitForResponse ESP8266_OK_MESSAGE TIMEOUT_SHORT [] (esp_init\<lparr>count := 4, status := 0x08\<rparr>)
     = None"
proof -
  have a: "WaitForResponse ESP8266_OK_MESSAGE TIMEOUT_SHORT ok_batches (esp_init\<lparr>status := 0x08\<rparr>)
     = Some (Inr (1, esp_init\<lparr>count := 4, status := 0x08\<rparr>, [[0x3E]]))"
    by code_simp
  have n: "ESP8266_OK_MESSAGE \<noteq> 0" by (simp add: ESP8266_OK_MESSAGE_def)
  from C5_wait_clears_mask [OF a, of TIMEOUT_SHORT] n
  have "status (esp_init\<lparr>count := 4, status := 0x08\<rparr>) AND ESP8266_OK_MESSAGE = 0
    \<and> WaitForResponse ESP8266_OK_MESSAGE TIMEOUT_SHORT [] (esp_init\<lparr>count := 4, status := 0x08\<rparr>)
        = None"
    by blast
  with a n show ?thesis by blast
qed


section \<open>The FIFO as a queue\<close>

lemma mod_buf:
  "n < 2 * UART_BUFFER_SIZE \<Longrightarrow>
   n mod UART_BUFFER_SIZE = (if n < UART_BUFFER_SIZE then n else n - UART_BUFFER_SIZE)"
  by (simp add: UART_BUFFER_SIZE_def le_mod_geq)

lemma next_index:
  "i < UART_BUFFER_SIZE \<Longrightarrow>
   Uart_FifoGetNextIndex i = (if Suc i < UART_BUFFER_SIZE then Suc i else 0)"
  by (auto simp: Uart_FifoGetNextIndex_def UART_BUFFER_SIZE_def Let_def)

lemma ring_diff:
  "e < UART_BUFFER_SIZE \<Longrightarrow> d < UART_BUFFER_SIZE \<Longrightarrow>
   (e + UART_BUFFER_SIZE - d) mod UART_BUFFER_SIZE =
     (if d \<le> e then e - d else e + UART_BUFFER_SIZE - d)"
  by (subst mod_buf) auto

lemma ring_succ:
  assumes "d < UART_BUFFER_SIZE"
  shows "(Uart_FifoGetNextIndex d + k) mod UART_BUFFER_SIZE = (d + Suc k) mod UART_BUFFER_SIZE"
proof (cases "Suc d < UART_BUFFER_SIZE")
  case True
  with assms show ?thesis by (simp add: next_index)
next
  case False
  with assms have "d + Suc k = UART_BUFFER_SIZE + k" by simp
  then have "(d + Suc k) mod UART_BUFFER_SIZE = k mod UART_BUFFER_SIZE"
    by (simp only: mod_add_self1)
  moreover from assms False have "Uart_FifoGetNextIndex d = 0" by (simp add: next_index)
  ultimately show ?thesis by simp
qed

lemma count_alt:
  "fifo_wf u \<Longrightarrow> fifo_count u =
     (if dequeueIndex u \<le> enqueueIndex u then enqueueIndex u - dequeueIndex u
      else enqueueIndex u + UART_BUFFER_SIZE - dequeueIndex u)"
  unfolding fifo_wf_def fifo_count_def by (subst mod_buf) auto

lemma count_less: "fifo_wf u \<Longrightarrow> fifo_count u < UART_BUFFER_SIZE"
  by (simp add: fifo_count_def UART_BUFFER_SIZE_def)

lemma slot:
  "fifo_wf u \<Longrightarrow> k < UART_BUFFER_SIZE \<Longrightarrow>
   (dequeueIndex u + k) mod UART_BUFFER_SIZE =
     (if dequeueIndex u + k < UART_BUFFER_SIZE then dequeueIndex u + k
      else dequeueIndex u + k - UART_BUFFER_SIZE)"
  unfolding fifo_wf_def by (subst mod_buf) auto

lemma full_iff: "fifo_wf u \<Longrightarrow> Uart_FifoIsFull u \<longleftrightarrow> fifo_count u = UART_BUFFER_SIZE - 1"
  by (auto simp: count_alt Uart_FifoIsFull_def next_index fifo_wf_def split: if_splits)

lemma empty_iff: "fifo_wf u \<Longrightarrow> Uart_FifoIsEmpty u \<longleftrightarrow> fifo_count u = 0"
  by (auto simp: count_alt Uart_FifoIsEmpty_def fifo_wf_def split: if_splits)

lemma empty_contents: "enqueueIndex u = dequeueIndex u \<Longrightarrow> fifo_contents u = []"
  by (simp add: fifo_contents_def fifo_count_def)

lemma length_contents: "length (fifo_contents u) = fifo_count u"
  by (simp add: fifo_contents_def)

lemma enqueue_ok:
  assumes "fifo_wf u" "fifo_count u < UART_BUFFER_SIZE - 1"
  shows "\<exists>u'. Uart_FifoEnqueue x u = Inr (1, u') \<and> fifo_wf u'
           \<and> fifo_contents u' = fifo_contents u @ [x] \<and> fifo_count u' = Suc (fifo_count u)"
proof -
  let ?u' = "u\<lparr>fifo := (fifo u)[enqueueIndex u := x],
               enqueueIndex := Uart_FifoGetNextIndex (enqueueIndex u)\<rparr>"
  from assms have nf: "\<not> Uart_FifoIsFull u" by (simp add: full_iff)
  with assms have e: "Uart_FifoEnqueue x u = Inr (1, ?u')"
    by (simp add: Uart_FifoEnqueue_def fifo_wf_def)
  from assms(1) have wf: "fifo_wf ?u'"
    by (simp add: fifo_wf_def next_index)
  from assms have c: "fifo_count ?u' = Suc (fifo_count u)"
    unfolding fifo_count_def fifo_wf_def
    by (auto simp: ring_diff next_index split: if_splits)
  from assms have last: "(dequeueIndex u + fifo_count u) mod UART_BUFFER_SIZE = enqueueIndex u"
    by (simp add: slot count_less) (auto simp: count_alt fifo_wf_def split: if_splits)
  have other: "enqueueIndex u \<noteq> (dequeueIndex u + k) mod UART_BUFFER_SIZE"
    if "k < fifo_count u" for k
  proof -
    from that assms have "k < UART_BUFFER_SIZE" by simp
    with that assms show ?thesis
      by (simp add: slot) (auto simp: count_alt fifo_wf_def split: if_splits)
  qed
  from assms have el: "enqueueIndex u < length (fifo u)" by (simp add: fifo_wf_def)
  have "fifo_contents ?u' = fifo_contents u @ [x]"
    using last other el by (simp add: fifo_contents_def c)
  with e wf c show ?thesis by blast
qed

lemma enqueue_full:
  assumes "fifo_wf u" "fifo_count u = UART_BUFFER_SIZE - 1"
  shows "Uart_FifoIsFull u \<and> Uart_FifoEnqueue x u = Inr (0, u)"
  using assms by (simp add: full_iff Uart_FifoEnqueue_def)

lemma dequeue_ok:
  assumes "fifo_wf u" "fifo_contents u = x # xs"
  shows "\<exists>u'. Uart_FifoDequeue u = Inr (x, u') \<and> fifo_wf u' \<and> fifo_contents u' = xs"
proof -
  let ?u' = "u\<lparr>dequeueIndex := Uart_FifoGetNextIndex (dequeueIndex u)\<rparr>"
  from assms(2) have pos: "0 < fifo_count u"
    by (cases "fifo_count u") (auto simp: fifo_contents_def)
  with assms have ne: "\<not> Uart_FifoIsEmpty u" by (simp add: empty_iff)
  from assms pos have hd: "fifo u ! dequeueIndex u = x"
    by (auto simp: fifo_contents_def upt_conv_Cons fifo_wf_def)
  from ne assms(1) hd have d: "Uart_FifoDequeue u = Inr (x, ?u')"
    by (simp add: Uart_FifoDequeue_def fifo_wf_def)
  from assms(1) have wf: "fifo_wf ?u'"
    by (simp add: fifo_wf_def next_index)
  from assms(1) pos have c: "fifo_count u = Suc (fifo_count ?u')"
    unfolding fifo_count_def fifo_wf_def
    by (auto simp: ring_diff next_index split: if_splits)
  have idx: "(dequeueIndex ?u' + k) mod UART_BUFFER_SIZE
      = (dequeueIndex u + Suc k) mod UART_BUFFER_SIZE" for k
    using assms(1) by (simp add: ring_succ fifo_wf_def)
  have "fifo_contents u
      = map (\<lambda>k. fifo u ! ((dequeueIndex u + k) mod UART_BUFFER_SIZE))
          (0 # map Suc [0..<fifo_count ?u'])"
    unfolding fifo_contents_def c by (simp only: upt_conv_Cons zero_less_Suc map_Suc_upt)
  also have "\<dots> = x # map (\<lambda>k. fifo u ! ((dequeueIndex u + Suc k) mod UART_BUFFER_SIZE))
                         [0..<fifo_count ?u']"
    using hd assms(1) by (simp add: fifo_wf_def comp_def)
  also have "map (\<lambda>k. fifo u ! ((dequeueIndex u + Suc k) mod UART_BUFFER_SIZE))
                 [0..<fifo_count ?u']
      = fifo_contents ?u'"
    unfolding fifo_contents_def using idx by (intro map_cong) auto
  finally have "fifo_contents u = x # fifo_contents ?u'" .
  with assms(2) d wf show ?thesis by auto
qed

lemma enqueue_all_append:
  "enqueue_all (xs @ ys) u =
     (case enqueue_all xs u of
        Inl f \<Rightarrow> Inl f
      | Inr (rs, u') \<Rightarrow>
          (case enqueue_all ys u' of Inl f \<Rightarrow> Inl f | Inr (rs', u'') \<Rightarrow> Inr (rs @ rs', u'')))"
  by (induction xs arbitrary: u) (auto split: sum.splits prod.splits)

lemma enqueue_all_ok:
  "fifo_wf u \<Longrightarrow> fifo_count u + length xs \<le> UART_BUFFER_SIZE - 1 \<Longrightarrow>
   \<exists>u'. enqueue_all xs u = Inr (replicate (length xs) 1, u') \<and> fifo_wf u'
      \<and> fifo_contents u' = fifo_contents u @ xs"
proof (induction xs arbitrary: u)
  case Nil
  then show ?case by simp
next
  case (Cons x xs)
  from Cons.prems have "fifo_count u < UART_BUFFER_SIZE - 1" by simp
  from enqueue_ok [OF Cons.prems(1) this, of x] obtain u1 where
    u1: "Uart_FifoEnqueue x u = Inr (1, u1)" "fifo_wf u1"
      "fifo_contents u1 = fifo_contents u @ [x]" "fifo_count u1 = Suc (fifo_count u)"
    by blast
  with Cons.prems have "fifo_count u1 + length xs \<le> UART_BUFFER_SIZE - 1" by simp
  from Cons.IH [OF u1(2) this] obtain u' where
    "enqueue_all xs u1 = Inr (replicate (length xs) 1, u')" "fifo_wf u'"
    "fifo_contents u' = fifo_contents u1 @ xs"
    by blast
  with u1 show ?case by simp
qed

lemma dequeue_n_ok:
  "fifo_wf u \<Longrightarrow> fifo_contents u = xs @ ys \<Longrightarrow>
   \<exists>u'. dequeue_n (length xs) u = Inr (xs, u') \<and> fifo_wf u' \<and> fifo_contents u' = ys"
proof (induction xs arbitrary: u)
  case Nil
  then show ?case by simp
next
  case (Cons x xs)
  from Cons.prems have "fifo_contents u = x # (xs @ ys)" by simp
  from dequeue_ok [OF Cons.prems(1) this] obtain u1 where
    u1: "Uart_FifoDequeue u = Inr (x, u1)" "fifo_wf u1" "fifo_contents u1 = xs @ ys"
    by blast
  from Cons.IH [OF u1(2,3)] obtain u' where
    "dequeue_n (length xs) u1 = Inr (xs, u')" "fifo_wf u'" "fifo_contents u' = ys"
    by blast
  with u1 show ?case by simp
qed

lemma round_trip:
  assumes "fifo_wf u" "Uart_FifoIsEmpty u" "length xs \<le> UART_BUFFER_SIZE - 1"
  shows "\<exists>u1 u2. enqueue_all xs u = Inr (replicate (length xs) 1, u1) \<and> fifo_wf u1
           \<and> fifo_count u1 = length xs
           \<and> dequeue_n (length xs) u1 = Inr (xs, u2) \<and> Uart_FifoIsEmpty u2"
proof -
  from assms have e: "enqueueIndex u = dequeueIndex u"
    by (simp add: Uart_FifoIsEmpty_def)
  then have c0: "fifo_contents u = []" by (rule empty_contents)
  then have "fifo_count u = 0" using length_contents [of u] by simp
  with assms have "fifo_count u + length xs \<le> UART_BUFFER_SIZE - 1" by simp
  from enqueue_all_ok [OF assms(1) this] c0 obtain u1 where
    u1: "enqueue_all xs u = Inr (replicate (length xs) 1, u1)" "fifo_wf u1"
      "fifo_contents u1 = xs"
    by auto
  from dequeue_n_ok [OF u1(2), of xs "[]"] u1(3) obtain u2 where
    u2: "dequeue_n (length xs) u1 = Inr (xs, u2)" "fifo_wf u2" "fifo_contents u2 = []"
    by auto
  from u2 have "fifo_count u2 = 0" using length_contents [of u2] by simp
  with u2 have "Uart_FifoIsEmpty u2" by (simp add: empty_iff)
  moreover from u1 have "fifo_count u1 = length xs" using length_contents [of u1] by simp
  ultimately show ?thesis using u1 u2 by blast
qed

text \<open>
  Claim C7. From an empty FIFO (the cursors equal, anywhere in the array): for a byte
  sequence \<open>xs\<close> of at most 63 bytes, one enqueue per byte returns 1 every time and as
  many dequeues then return \<open>xs\<close> in order, leaving the FIFO empty. For a sequence \<open>ys\<close>
  of exactly 63 bytes, the FIFO is then full and a 64th enqueue returns 0 and leaves the
  FIFO as it was, so that the 63 dequeues still return \<open>ys\<close>: nothing was overwritten.
\<close>

theorem C7_fifo_round_trip:
  assumes "length (fifo u) = UART_BUFFER_SIZE" "dequeueIndex u < UART_BUFFER_SIZE"
    "Uart_FifoIsEmpty u" "length xs \<le> UART_BUFFER_SIZE - 1"
    "length ys = UART_BUFFER_SIZE - 1"
  shows "(\<exists>u1 u2. enqueue_all xs u = Inr (replicate (length xs) 1, u1)
            \<and> dequeue_n (length xs) u1 = Inr (xs, u2) \<and> Uart_FifoIsEmpty u2)
       \<and> (\<exists>u1 u2. enqueue_all ys u = Inr (replicate (length ys) 1, u1)
            \<and> Uart_FifoIsFull u1 \<and> Uart_FifoEnqueue x u1 = Inr (0, u1)
            \<and> enqueue_all (ys @ [x]) u = Inr (replicate (length ys) 1 @ [0], u1)
            \<and> dequeue_n (length ys) u1 = Inr (ys, u2))"
proof -
  from assms have wf: "fifo_wf u"
    by (simp add: fifo_wf_def Uart_FifoIsEmpty_def)
  from round_trip [OF wf assms(3,4)] have a:
    "\<exists>u1 u2. enqueue_all xs u = Inr (replicate (length xs) 1, u1)
        \<and> dequeue_n (length xs) u1 = Inr (xs, u2) \<and> Uart_FifoIsEmpty u2"
    by blast
  from assms(5) have "length ys \<le> UART_BUFFER_SIZE - 1" by simp
  from round_trip [OF wf assms(3) this] obtain u1 u2 where
    u: "enqueue_all ys u = Inr (replicate (length ys) 1, u1)" "fifo_wf u1"
      "fifo_count u1 = length ys" "dequeue_n (length ys) u1 = Inr (ys, u2)"
    by blast
  with assms(5) have "fifo_count u1 = UART_BUFFER_SIZE - 1" by simp
  from enqueue_full [OF u(2) this, of x]
  have f: "Uart_FifoIsFull u1" "Uart_FifoEnqueue x u1 = Inr (0, u1)" by simp_all
  with u(1) have "enqueue_all (ys @ [x]) u = Inr (replicate (length ys) 1 @ [0], u1)"
    by (simp add: enqueue_all_append)
  with u f a show ?thesis by blast
qed

text \<open>
  The theorem from an empty FIFO whose cursors stand at 62: three bytes go to the slots
  62, 63 and 0 and come back in order; 63 bytes fill the FIFO.
\<close>

theorem C7_fifo_round_trip_witness:
  "length (fifo ring_start) = UART_BUFFER_SIZE \<and> dequeueIndex ring_start < UART_BUFFER_SIZE
   \<and> Uart_FifoIsEmpty ring_start
   \<and> length [0x4F, 0x4B, 0x0D :: u8] \<le> UART_BUFFER_SIZE - 1
   \<and> length (replicate 63 (0x55 :: u8)) = UART_BUFFER_SIZE - 1
   \<and> enqueue_all [0x4F, 0x4B, 0x0D] ring_start = Inr ([1, 1, 1], ring_three)
   \<and> dequeue_n 3 ring_three = Inr ([0x4F, 0x4B, 0x0D], ring_three\<lparr>dequeueIndex := 1\<rparr>)
   \<and> (\<exists>u1 u2. enqueue_all (replicate 63 0x55) ring_start = Inr (replicate 63 1, u1)
        \<and> Uart_FifoIsFull u1 \<and> Uart_FifoEnqueue 0x99 u1 = Inr (0, u1)
        \<and> dequeue_n 63 u1 = Inr (replicate 63 0x55, u2))"
proof -
  have h: "length (fifo ring_start) = UART_BUFFER_SIZE"
    "dequeueIndex ring_start < UART_BUFFER_SIZE" "Uart_FifoIsEmpty ring_start"
    "length [0x4F, 0x4B, 0x0D :: u8] \<le> UART_BUFFER_SIZE - 1"
    "length (replicate 63 (0x55 :: u8)) = UART_BUFFER_SIZE - 1"
    by (simp_all add: ring_start_def UART_BUFFER_SIZE_def Uart_FifoIsEmpty_def)
  have e: "enqueue_all [0x4F, 0x4B, 0x0D] ring_start = Inr ([1, 1, 1], ring_three)"
    by (simp add: ring_start_def ring_three_def Uart_FifoEnqueue_def Uart_FifoIsFull_def
          Uart_FifoGetNextIndex_def UART_BUFFER_SIZE_def Let_def)
  have d: "dequeue_n 3 ring_three
      = Inr ([0x4F, 0x4B, 0x0D], ring_three\<lparr>dequeueIndex := 1\<rparr>)"
    unfolding numeral_3_eq_3
    by (simp add: ring_three_def Uart_FifoDequeue_def Uart_FifoIsEmpty_def
          Uart_FifoGetNextIndex_def UART_BUFFER_SIZE_def Let_def)
  from C7_fifo_round_trip [OF h, of "0x99"] h e d show ?thesis
    by (simp) blast
qed


section \<open>Command dispatch\<close>

text \<open>
  What the main loop does with the directions it handles: the motor action of the first
  byte, then the second byte as the speed.
\<close>

lemma dispatch_handled:
  "main_dispatch (STOP # v # rest) = DriveCtrl_Stop @ DriveCtrl_SetSpeed 0"
  "main_dispatch (FORWARD # v # rest) = DriveCtrl_Forward @ DriveCtrl_SetSpeed v"
  "main_dispatch (BACKWARD # v # rest) = DriveCtrl_Backward @ DriveCtrl_SetSpeed v"
  "main_dispatch (LEFT # v # rest) = DriveCtrl_Turn LEFT @ DriveCtrl_SetSpeed v"
  "main_dispatch (RIGHT # v # rest) = DriveCtrl_Turn RIGHT @ DriveCtrl_SetSpeed v"
  by (simp_all add: main_dispatch_def STOP_def FORWARD_def BACKWARD_def LEFT_def RIGHT_def)

text \<open>
  Claim C3 fails on the code for the direction codes 4 and 6. The stream \<open>+IPD,1,2:\<close>
  with the body 4, 50 is received and handed to the main loop as a packet of length 2,
  and the \<open>switch\<close> of the main loop has no case for \<open>SHARP_LEFT\<close> or
  \<open>SHARP_RIGHT\<close>: no motor call and no speed call is made. \<open>DriveCtrl_Turn\<close> does
  implement both sharp turns; for \<open>SHARP_LEFT\<close> at speed 50 the calls would be the ones
  listed, and for the code 3 the main loop does call \<open>DriveCtrl_Turn\<close>.
\<close>

theorem C3_sharp_turns_not_dispatched:
  "feed esp_init sharp_left50 = Inr sharp_left_received
   \<and> Esp8266_ReceiveMsg (replicate 64 0) sharp_left_received
       = Inr (2, 4 # 50 # replicate 62 0, sharp_left_received\<lparr>status := 0\<rparr>)
   \<and> main_dispatch (4 # 50 # replicate 62 0) = []
   \<and> main_dispatch (6 # 50 # replicate 62 0) = []
   \<and> DriveCtrl_Turn SHARP_LEFT @ DriveCtrl_SetSpeed 50
       = [GPIO_WriteLow GPIOA GPIO_PIN_3, GPIO_WriteHigh GPIOA GPIO_PIN_4,
          GPIO_WriteHigh GPIOG GPIO_PIN_0, GPIO_WriteLow GPIOG GPIO_PIN_1,
          TIM2_SetCompare1 500, TIM2_SetCompare2 500]
   \<and> main_dispatch (3 # 50 # replicate 62 0) = DriveCtrl_Turn LEFT @ DriveCtrl_SetSpeed 50"
  by code_simp


end
